theory Spec2Isabelle
  imports Complex_Main
begin

section \<open>Values\<close>

text \<open>
  The input of \<open>parse\<close> has the TypeScript type \<open>unknown\<close>. The model takes the
  values the schemas of \<open>mod.ts\<close> tell apart: the primitives, \<open>Date\<close> objects, arrays and
  plain objects, and the three containers a successful parse builds (\<open>List\<close> of
  \<open>@oxi/list\<close>, \<open>Option.Some\<close> and \<open>Option.None\<close> of \<open>@oxi/option\<close>).

  A number is its exact value, or one of the three special values; the two zeros are one
  value, which is what \<open>===\<close> and \<open>Array.prototype.includes\<close> see.
  A \<open>Date\<close> is an object with an identity (the first field) and a time value; the
  time value \<open>None\<close> is the invalid date, \<open>new Date(NaN)\<close>.
  A plain object is the list of its own enumerable properties, in the order
  \<open>for ... in\<close> visits them, each key once; its prototype is \<open>Object.prototype\<close>, whose
  members it inherits. Those members are functions: a function is a value of its own
  kind, named by the member it is.
\<close>

datatype number = Finite rat | NaN | PosInfinity | NegInfinity

datatype jsval =
    JUndefined
  | JNull
  | JBool bool
  | JNum number
  | JStr string
  | JDate nat "int option"
  | JArr "jsval list"
  | JObj "(string \<times> jsval) list"
  | JList "jsval list"
  | JSome jsval
  | JNone
  | JFunction string

text \<open>The type \<open>string | number | boolean\<close> of literal and enum values.\<close>

datatype prim = PStr string | PNum number | PBool bool

fun prim_val :: "prim \<Rightarrow> jsval" where
  "prim_val (PStr s) = JStr s"
| "prim_val (PNum n) = JNum n"
| "prim_val (PBool b) = JBool b"

text \<open>\<open>a === b\<close> for a primitive \<open>b\<close>: equal values, and \<open>NaN\<close> is not equal to itself.\<close>

definition strictEquals :: "jsval \<Rightarrow> prim \<Rightarrow> bool" where
  "strictEquals a b = (a = prim_val b \<and> b \<noteq> PNum NaN)"

text \<open>
  The members a plain object inherits from \<open>Object.prototype\<close>: eleven functions, and
  the accessor \<open>__proto__\<close>, which reads as the prototype itself, an object with no
  enumerable property.
\<close>

definition prototypeFunctions :: "string list" where
  "prototypeFunctions =
     [''constructor'', ''hasOwnProperty'', ''isPrototypeOf'', ''propertyIsEnumerable'',
      ''toLocaleString'', ''toString'', ''valueOf'', ''__defineGetter__'', ''__defineSetter__'',
      ''__lookupGetter__'', ''__lookupSetter__'']"

definition inherited :: "string \<Rightarrow> jsval" where
  "inherited key =
     (if key \<in> set prototypeFunctions then JFunction key
      else if key = ''__proto__'' then JObj []
      else JUndefined)"

text \<open>\<open>data[key]\<close> on a plain object: the own property when there is one, otherwise what
  the prototype has under that name, \<open>undefined\<close> when it has nothing.\<close>

fun getProp :: "(string \<times> jsval) list \<Rightarrow> string \<Rightarrow> jsval" where
  "getProp [] key = inherited key"
| "getProp ((k, v) # ps) key = (if k = key then v else getProp ps key)"

text \<open>The elements of an array, the properties of a plain object and the time value of
  a date; each is read only after the guard for its kind of value has passed.\<close>

fun elements :: "jsval \<Rightarrow> jsval list" where
  "elements (JArr xs) = xs"
| "elements v = []"

fun properties :: "jsval \<Rightarrow> (string \<times> jsval) list" where
  "properties (JObj ps) = ps"
| "properties v = []"

fun timeOf :: "jsval \<Rightarrow> int option" where
  "timeOf (JDate i t) = t"
| "timeOf v = None"

text \<open>
  \<open>obj[key] = v\<close>: an existing property keeps its place and takes the new value, a new
  one is added last.
\<close>

fun setProp :: "(string \<times> 'a) list \<Rightarrow> string \<Rightarrow> 'a \<Rightarrow> (string \<times> 'a) list" where
  "setProp [] key v = [(key, v)]"
| "setProp ((k, w) # ps) key v = (if k = key then (k, v) # ps else (k, w) # setProp ps key v)"

subsection \<open>Object literals and the order of \<open>for ... in\<close>\<close>

text \<open>
  A key is an array index when it is the decimal string of a number below \<open>2^32 - 1\<close>,
  written without a leading zero. \<open>for ... in\<close> visits the own properties whose keys are
  array indices first, by ascending index, and then the others in the order in which
  they were created.
\<close>

definition digitValue :: "char \<Rightarrow> nat" where
  "digitValue c = of_char c - 48"

definition arrayIndex :: "string \<Rightarrow> nat option" where
  "arrayIndex key =
     (if key \<noteq> [] \<and> list_all (\<lambda>c. c \<in> set ''0123456789'') key \<and>
         (key = ''0'' \<or> hd key \<noteq> CHR ''0'')
      then (let n = foldl (\<lambda>a c. 10 * a + digitValue c) 0 key
            in if n < 4294967295 then Some n else None)
      else None)"

definition indexOf :: "string \<times> 'a \<Rightarrow> nat" where
  "indexOf p = (case arrayIndex (fst p) of Some n \<Rightarrow> n | None \<Rightarrow> 0)"

definition forIn :: "(string \<times> 'a) list \<Rightarrow> (string \<times> 'a) list" where
  "forIn ps =
     sort_key indexOf (filter (\<lambda>p. arrayIndex (fst p) \<noteq> None) ps) @
     filter (\<lambda>p. arrayIndex (fst p) = None) ps"

text \<open>
  The object an object literal \<open>{k1: v1, k2: v2, ...}\<close> evaluates to, from the properties
  in the order they are written: a key written twice keeps its first place and its last
  value, and the properties stand in the order \<open>for ... in\<close> visits them. The property map
  of \<open>obj({...})\<close> is such an object.
\<close>

definition objectLiteral :: "(string \<times> 'a) list \<Rightarrow> (string \<times> 'a) list" where
  "objectLiteral written = forIn (foldl (\<lambda>acc (k, v). setProp acc k v) [] written)"

subsection \<open>Exceptions and the result type of \<open>@oxi/result\<close>\<close>

text \<open>
  \<open>mod.ts\<close> raises one exception itself, the \<open>Error\<close> of \<open>as\<close>; the engine raises a
  \<open>TypeError\<close> inside a cast of a value it cannot convert.

  A call that returns a \<open>Result\<close> ends in one of three ways: it returns \<open>Ok\<close>, it returns
  \<open>Err\<close>, or it raises an exception and returns nothing. The third way is \<open>Throw\<close>: it
  is no value of \<open>@oxi/result\<close>, and the methods of a \<open>Result\<close> are never called on it,
  so each of them passes it on.
\<close>

datatype error = Error string | TypeError string

datatype ('a, 'e) Result = Ok 'a | Err 'e | Throw error

fun isOk :: "('a, 'e) Result \<Rightarrow> bool" where
  "isOk (Ok v) = True"
| "isOk (Err e) = False"
| "isOk (Throw t) = False"

fun isErr :: "('a, 'e) Result \<Rightarrow> bool" where
  "isErr (Ok v) = False"
| "isErr (Err e) = True"
| "isErr (Throw t) = False"

fun mapErr :: "('e \<Rightarrow> 'f) \<Rightarrow> ('a, 'e) Result \<Rightarrow> ('a, 'f) Result" where
  "mapErr f (Ok v) = Ok v"
| "mapErr f (Err e) = Err (f e)"
| "mapErr f (Throw t) = Throw t"

fun mapOk :: "('a \<Rightarrow> 'b) \<Rightarrow> ('a, 'e) Result \<Rightarrow> ('b, 'e) Result" where
  "mapOk f (Ok v) = Ok (f v)"
| "mapOk f (Err e) = Err e"
| "mapOk f (Throw t) = Throw t"

fun andThen :: "('a \<Rightarrow> ('b, 'e) Result) \<Rightarrow> ('a, 'e) Result \<Rightarrow> ('b, 'e) Result" where
  "andThen f (Ok v) = f v"
| "andThen f (Err e) = Err e"
| "andThen f (Throw t) = Throw t"

subsection \<open>The helpers of \<open>@oxi/core\<close>\<close>

text \<open>
  Modelled from the spec: the type guards and \<open>getTypeOf\<close> are imported from
  \<open>@oxi/core\<close>, which is not under src/. Each guard is the test its name says; \<open>isNil\<close>
  holds for \<open>undefined\<close> and \<open>null\<close>, as \<open>opt\<close> is specified (nil is absent or null).
\<close>

fun isString :: "jsval \<Rightarrow> bool" where
  "isString (JStr s) = True"
| "isString v = False"

fun isNumber :: "jsval \<Rightarrow> bool" where
  "isNumber (JNum n) = True"
| "isNumber v = False"

fun isBoolean :: "jsval \<Rightarrow> bool" where
  "isBoolean (JBool b) = True"
| "isBoolean v = False"

text \<open>
  Modelled from the spec: \<open>isDate\<close> of \<open>@oxi/core\<close> is not under src/. The spec has
  \<open>date\<close> reject invalid date values, and the test \<open>Schema.date (default error)\<close>
  requires \<open>new Date("invalid date")\<close> to fail: \<open>isDate\<close> holds for a \<open>Date\<close> with a valid
  time value only.
\<close>

fun isDate :: "jsval \<Rightarrow> bool" where
  "isDate (JDate i (Some t)) = True"
| "isDate v = False"

fun isArray :: "jsval \<Rightarrow> bool" where
  "isArray (JArr xs) = True"
| "isArray v = False"

fun isPlainObject :: "jsval \<Rightarrow> bool" where
  "isPlainObject (JObj ps) = True"
| "isPlainObject v = False"

fun isNil :: "jsval \<Rightarrow> bool" where
  "isNil JUndefined = True"
| "isNil JNull = True"
| "isNil v = False"

text \<open>
  Modelled from the spec: \<open>getTypeOf\<close> of \<open>@oxi/core\<close> is not under src/. It is the
  runtime type name of the input; the tests fix \<open>number\<close>, \<open>string\<close>, \<open>boolean\<close>,
  \<open>undefined\<close> and \<open>object\<close> (for \<open>{}\<close>), and the other names follow the same scheme. No
  statement below depends on a name the tests do not fix.
\<close>

fun getTypeOf :: "jsval \<Rightarrow> string" where
  "getTypeOf JUndefined = ''undefined''"
| "getTypeOf JNull = ''null''"
| "getTypeOf (JBool b) = ''boolean''"
| "getTypeOf (JNum n) = ''number''"
| "getTypeOf (JStr s) = ''string''"
| "getTypeOf (JDate i t) = ''date''"
| "getTypeOf (JArr xs) = ''array''"
| "getTypeOf (JFunction f) = ''function''"
| "getTypeOf v = ''object''"

subsection \<open>Built-ins of the language\<close>

text \<open>
  The conversions \<open>Number(x)\<close>, \<open>String(x)\<close>, \<open>new Date(x)\<close> of a string or a number and
  \<open>JSON.stringify(x)\<close> (as a template literal prints it) are the JavaScript engine's.
  They format and read floating point numbers and dates; the model takes them as
  parameters, and a theorem holds for every choice of them. \<open>Number\<close> and \<open>String\<close>
  convert an object to a primitive first, by its \<open>valueOf\<close> and \<open>toString\<close>, and raise a
  \<open>TypeError\<close> when that gives none: each returns the exception or the value.
  \<open>new Date(x)\<close> of a string or a number always returns, an invalid date when it cannot
  read \<open>x\<close>. \<open>JSON.stringify\<close> is taken to return on every value: the engine raises in
  it for a \<open>BigInt\<close>, for a cyclic structure and inside a \<open>toJSON\<close> method, which the
  model does not have.
\<close>

record builtins =
  Number :: "jsval \<Rightarrow> error + number"
  String :: "jsval \<Rightarrow> error + string"
  timeValue :: "jsval \<Rightarrow> int option"
  stringify :: "jsval \<Rightarrow> string"

text \<open>\<open>Boolean(x)\<close>: every value is true but \<open>undefined\<close>, \<open>null\<close>, \<open>false\<close>, \<open>0\<close>,
  \<open>NaN\<close> and the empty string.\<close>

fun Boolean :: "jsval \<Rightarrow> bool" where
  "Boolean JUndefined = False"
| "Boolean JNull = False"
| "Boolean (JBool b) = b"
| "Boolean (JNum n) = (n \<noteq> Finite 0 \<and> n \<noteq> NaN)"
| "Boolean (JStr s) = (s \<noteq> [])"
| "Boolean v = True"

text \<open>\<open>s.toLowerCase()\<close> on the letters A to Z; the four words \<open>tryBool\<close> looks for are
  made of ASCII letters and a digit.\<close>

definition lowerChar :: "char \<Rightarrow> char" where
  "lowerChar c =
     (let n = (of_char c :: nat) in if 65 \<le> n \<and> n \<le> 90 then char_of (n + 32) else c)"

definition toLowerCase :: "string \<Rightarrow> string" where
  "toLowerCase s = map lowerChar s"

text \<open>\<open>i.toString()\<close> for an array index.\<close>

definition digit :: "nat \<Rightarrow> char" where
  "digit d = ''0123456789'' ! d"

function toString :: "nat \<Rightarrow> string" where
  "toString i = (if i < 10 then [digit i] else toString (i div 10) @ [digit (i mod 10)])"
  by pat_completeness auto
termination
  by (relation "measure id") auto

text \<open>\<open>xs.join(sep)\<close> for an array of strings.\<close>

fun join :: "string \<Rightarrow> string list \<Rightarrow> string" where
  "join sep [] = []"
| "join sep [x] = x"
| "join sep (x # y # ys) = x @ sep @ join sep (y # ys)"

section \<open>The error model\<close>

record ParseError =
  actual :: string
  expected :: string
  message :: string
  path :: "string list"
  "value" :: jsval

text \<open>
  \<open>message || `Expected ...`\<close>: an absent message and the empty string both give the
  generated default.
\<close>

definition err :: "string \<Rightarrow> jsval \<Rightarrow> string option \<Rightarrow> ParseError" where
  "err expected' v msg =
     (let actual' = getTypeOf v in
      \<lparr> actual = actual',
        expected = expected',
        message = (case msg of
                     Some m \<Rightarrow> if m \<noteq> [] then m else ''Expected '' @ expected' @ '', but got '' @ actual'
                   | None \<Rightarrow> ''Expected '' @ expected' @ '', but got '' @ actual'),
        path = [],
        value = v \<rparr>)"

section \<open>Schemas\<close>

text \<open>
  A schema is an object with a type tag, an optional message and a \<open>parse\<close> method. The
  method is a closure; two of the constructors (\<open>oneOf\<close>, \<open>lit\<close>) assign to a variable
  the closure captured, and \<open>date\<close> creates an object. Both effects go through an
  explicit store: \<open>cells\<close> holds the captured \<open>message\<close> variables by address, and
  \<open>counter\<close> is the next unused address and object identity.

  A call of \<open>parse\<close> returns a \<open>Result\<close> or raises: no function of \<open>mod.ts\<close> catches
  an exception, so one raised by a cast of \<open>as\<close>, by a step function or by the
  conversion of a property name in \<open>record\<close> leaves the \<open>parse\<close> that called it, and
  every loop that called that \<open>parse\<close>, with the store as it was at that moment.

  The field \<open>message\<close> of a schema is \<open>smessage\<close> here, the name \<open>message\<close> being the
  field of \<open>ParseError\<close>. The fields \<open>schema\<close> of \<open>ListSchema\<close> and \<open>OptionalSchema\<close>
  are read by no function of \<open>mod.ts\<close> and are left out. The step functions of the
  library (\<open>minLen\<close>, \<open>range\<close>, ...) are values of type \<open>Pipe\<close> like any other.
\<close>

record store =
  cells :: "nat \<Rightarrow> string option"
  counter :: nat

type_synonym outcome = "(jsval, ParseError) Result \<times> store"

record Schema =
  type :: string
  smessage :: "string option"
  parse :: "store \<Rightarrow> jsval \<Rightarrow> outcome"

record ObjectSchema = Schema +
  props :: "(string \<times> Schema) list"

text \<open>
  \<open>pre\<close> copies the schema (\<open>...schema\<close>) and replaces its \<open>parse\<close>. A hook may raise,
  and then \<open>schema.parse\<close> is not called; it may create an object (\<open>tryDate\<close>), so it takes
  and returns the store.
\<close>

type_synonym hook = "store \<Rightarrow> jsval \<Rightarrow> error + jsval \<times> store"

definition pre :: "Schema \<Rightarrow> hook \<Rightarrow> Schema" where
  "pre schema hook =
     schema\<lparr> parse := (\<lambda>st data.
        case hook st data of
          Inl t \<Rightarrow> (Throw t, st)
        | Inr (d, st') \<Rightarrow> parse schema st' d) \<rparr>"

definition tryNum :: "builtins \<Rightarrow> hook" where
  "tryNum B st data =
     (case Number B data of
        Inl t \<Rightarrow> Inl t
      | Inr n \<Rightarrow> Inr (JNum n, st))"

definition tryStr :: "builtins \<Rightarrow> hook" where
  "tryStr B st data =
     (case String B data of
        Inl t \<Rightarrow> Inl t
      | Inr s \<Rightarrow> Inr (JStr s, st))"

definition tryBool :: hook where
  "tryBool st data =
     (case data of
        JStr s \<Rightarrow> Inr (JBool (toLowerCase s \<in> set [''true'', ''1'', ''yes'', ''on'']), st)
      | _ \<Rightarrow> Inr (JBool (Boolean data), st))"

definition tryDate :: "builtins \<Rightarrow> hook" where
  "tryDate B st data =
     (if isString data \<or> isNumber data
      then Inr (JDate (counter st) (timeValue B data), st\<lparr> counter := Suc (counter st) \<rparr>)
      else Inr (data, st))"

text \<open>\<open>throw new Error(...)\<close>: the exception leaves \<open>as\<close> itself, so \<open>as\<close> returns it in
  place of a schema.\<close>

definition as :: "builtins \<Rightarrow> Schema \<Rightarrow> error + Schema" where
  "as B schema =
     (if type schema = ''number'' then Inr (pre schema (tryNum B))
      else if type schema = ''string'' then Inr (pre schema (tryStr B))
      else if type schema = ''boolean'' then Inr (pre schema tryBool)
      else if type schema = ''date'' then Inr (pre schema (tryDate B))
      else Inl (Error (''Cannot coerce \"'' @ type schema @ ''\" to a primitive type'')))"

definition any :: Schema where
  "any = \<lparr> type = ''unknown'', smessage = None, parse = (\<lambda>st data. (Ok data, st)) \<rparr>"

definition str :: "string option \<Rightarrow> Schema" where
  "str msg =
     \<lparr> type = ''string'', smessage = msg,
       parse = (\<lambda>st data. if isString data then (Ok data, st)
                           else (Err (err ''string'' data msg), st)) \<rparr>"

definition num :: "string option \<Rightarrow> Schema" where
  "num msg =
     \<lparr> type = ''number'', smessage = msg,
       parse = (\<lambda>st data. if isNumber data then (Ok data, st)
                           else (Err (err ''number'' data msg), st)) \<rparr>"

definition bool :: "string option \<Rightarrow> Schema" where
  "bool msg =
     \<lparr> type = ''boolean'', smessage = msg,
       parse = (\<lambda>st data. if isBoolean data then (Ok data, st)
                           else (Err (err ''boolean'' data msg), st)) \<rparr>"

text \<open>\<open>new Date(data)\<close> of a date is a new object with the time value of \<open>data\<close>.\<close>

definition date :: "string option \<Rightarrow> Schema" where
  "date msg =
     \<lparr> type = ''date'', smessage = msg,
       parse = (\<lambda>st data.
          if isDate data
          then (Ok (JDate (counter st) (timeOf data)), st\<lparr> counter := Suc (counter st) \<rparr>)
          else (Err (err ''date'' data msg), st)) \<rparr>"

subsection \<open>Composite schemas\<close>

text \<open>
  The loop of \<open>list\<close>: \<open>i\<close> is the index of the next element, \<open>arr\<close> holds the results
  so far. The first failing element ends the loop with its error, the index put before
  the error's path.
\<close>

fun list_loop :: "Schema \<Rightarrow> store \<Rightarrow> nat \<Rightarrow> jsval list \<Rightarrow> jsval list \<Rightarrow> outcome" where
  "list_loop schema st i [] arr = (Ok (JList arr), st)"
| "list_loop schema st i (x # xs) arr =
     (case parse schema st x of
        (Err e, st') \<Rightarrow> (Err (e\<lparr> path := toString i # path e \<rparr>), st')
      | (Ok v, st') \<Rightarrow> list_loop schema st' (Suc i) xs (arr @ [v])
      | (Throw t, st') \<Rightarrow> (Throw t, st'))"

definition list :: "Schema \<Rightarrow> string option \<Rightarrow> Schema" where
  "list schema msg =
     \<lparr> type = ''list'', smessage = msg,
       parse = (\<lambda>st data.
          if \<not> isArray data then (Err (err ''list'' data msg), st)
          else list_loop schema st 0 (elements data) []) \<rparr>"

text \<open>
  The loop of \<open>obj\<close>, \<open>for (const key in props)\<close>: the property map is an object, so
  the list of its properties is in the order of \<open>for ... in\<close>, and the loop follows the
  list. \<open>acc\<close> is the object under construction; it is created without a prototype,
  so every assignment to it makes or updates a property of its own.
\<close>

fun obj_loop ::
  "(string \<times> Schema) list \<Rightarrow> store \<Rightarrow> (string \<times> jsval) list \<Rightarrow> (string \<times> jsval) list \<Rightarrow> outcome"
where
  "obj_loop [] st data acc = (Ok (JObj acc), st)"
| "obj_loop ((key, schema) # ps) st data acc =
     (case parse schema st (getProp data key) of
        (Err e, st') \<Rightarrow> (Err (e\<lparr> path := key # path e \<rparr>), st')
      | (Ok v, st') \<Rightarrow> obj_loop ps st' data (setProp acc key v)
      | (Throw t, st') \<Rightarrow> (Throw t, st'))"

definition obj :: "(string \<times> Schema) list \<Rightarrow> string option \<Rightarrow> ObjectSchema" where
  "obj ps msg =
     \<lparr> type = ''object'', smessage = msg,
       parse = (\<lambda>st data.
          if \<not> isPlainObject data then (Err (err ''object'' data msg), st)
          else obj_loop ps st (properties data) []),
       props = ps \<rparr>"

text \<open>
  The loop of \<open>record\<close> over the keys of the input. \<open>obj[keyResult.unwrap()] = ...\<close>
  uses the parsed key as a property name: a string is the name itself, any other value
  is converted by the engine, which may raise.
\<close>

definition propertyKey :: "builtins \<Rightarrow> jsval \<Rightarrow> error + string" where
  "propertyKey B v = (case v of JStr s \<Rightarrow> Inr s | _ \<Rightarrow> String B v)"

fun record_loop ::
  "builtins \<Rightarrow> Schema \<Rightarrow> Schema \<Rightarrow> string list \<Rightarrow> store \<Rightarrow> (string \<times> jsval) list \<Rightarrow>
   (string \<times> jsval) list \<Rightarrow> outcome"
where
  "record_loop B key val [] st data acc = (Ok (JObj acc), st)"
| "record_loop B key val (k # ks) st data acc =
     (case parse key st (JStr k) of
        (Err e, st') \<Rightarrow> (Err (e\<lparr> path := k # path e \<rparr>), st')
      | (Throw t, st') \<Rightarrow> (Throw t, st')
      | (Ok kv, st') \<Rightarrow>
          (case parse val st' (getProp data k) of
             (Err e, st'') \<Rightarrow> (Err (e\<lparr> path := k # path e \<rparr>), st'')
           | (Throw t, st'') \<Rightarrow> (Throw t, st'')
           | (Ok v, st'') \<Rightarrow>
               (case propertyKey B kv of
                  Inl t \<Rightarrow> (Throw t, st'')
                | Inr name \<Rightarrow> record_loop B key val ks st'' data (setProp acc name v))))"

definition record_schema :: "builtins \<Rightarrow> Schema \<Rightarrow> Schema \<Rightarrow> string option \<Rightarrow> Schema" where
  "record_schema B key val msg =
     \<lparr> type = ''record'', smessage = msg,
       parse = (\<lambda>st data.
          if \<not> isPlainObject data then (Err (err ''record'' data msg), st)
          else record_loop B key val (map fst (properties data)) st (properties data) []) \<rparr>"

text \<open>The loop of \<open>union\<close>: the first success is returned as it is; \<open>otherwise\<close> is the
  result when the loop ends without one.\<close>

fun union_loop ::
  "Schema list \<Rightarrow> (jsval, ParseError) Result \<Rightarrow> store \<Rightarrow> jsval \<Rightarrow> outcome"
where
  "union_loop [] otherwise st data = (otherwise, st)"
| "union_loop (schema # schemas) otherwise st data =
     (case parse schema st data of
        (Ok v, st') \<Rightarrow> (Ok v, st')
      | (Err e, st') \<Rightarrow> union_loop schemas otherwise st' data
      | (Throw t, st') \<Rightarrow> (Throw t, st'))"

definition union_schema :: "Schema list \<Rightarrow> string option \<Rightarrow> Schema" where
  "union_schema schemas msg =
     \<lparr> type = ''union'', smessage = msg,
       parse = (\<lambda>st data.
          union_loop schemas (Err (err (join '' | '' (map type schemas)) data msg)) st data) \<rparr>"

text \<open>The loop of \<open>tuple\<close> over the positions; the lengths are equal when it runs.\<close>

fun tuple_loop :: "Schema list \<Rightarrow> store \<Rightarrow> nat \<Rightarrow> jsval list \<Rightarrow> jsval list \<Rightarrow> outcome" where
  "tuple_loop (schema # schemas) st i (x # xs) arr =
     (case parse schema st x of
        (Err e, st') \<Rightarrow> (Err (e\<lparr> path := toString i # path e \<rparr>), st')
      | (Ok v, st') \<Rightarrow> tuple_loop schemas st' (Suc i) xs (arr @ [v])
      | (Throw t, st') \<Rightarrow> (Throw t, st'))"
| "tuple_loop schemas st i xs arr = (Ok (JArr arr), st)"

definition tuple :: "Schema list \<Rightarrow> string option \<Rightarrow> Schema" where
  "tuple schemas msg =
     \<lparr> type = ''tuple'', smessage = msg,
       parse = (\<lambda>st data.
          if \<not> isArray data \<or> length (elements data) \<noteq> length schemas
          then (Err (err ''tuple'' data msg), st)
          else tuple_loop schemas st 0 (elements data) []) \<rparr>"

subsection \<open>Membership schemas\<close>

text \<open>An enum-like object is the list of its properties; \<open>Object.values(e)\<close> is the list
  of their values, and \<open>includes\<close> compares by value.\<close>

definition enum_schema :: "(string \<times> prim) list \<Rightarrow> string option \<Rightarrow> Schema" where
  "enum_schema e msg =
     (let vals = map (prim_val \<circ> snd) e in
      \<lparr> type = ''enum'', smessage = msg,
        parse = (\<lambda>st data. if data \<in> set vals then (Ok data, st)
                            else (Err (err ''enum'' data msg), st)) \<rparr>)"

text \<open>
  \<open>oneOf\<close> and \<open>lit\<close> assign to their parameter \<open>message\<close> inside \<open>parse\<close>
  (\<open>message ??= ...\<close>). The parameter is a variable of the call of the constructor: the
  constructor takes the next address of the store for it, and \<open>parse\<close> reads and writes
  that cell. The \<open>message\<close> property of the schema object keeps the constructor's
  argument.
\<close>

definition assignIfNullish :: "nat \<Rightarrow> string \<Rightarrow> store \<Rightarrow> store" where
  "assignIfNullish a m st =
     (case cells st a of
        None \<Rightarrow> st\<lparr> cells := (cells st)(a := Some m) \<rparr>
      | Some m' \<Rightarrow> st)"

definition oneOf :: "builtins \<Rightarrow> string list \<Rightarrow> string option \<Rightarrow> store \<Rightarrow> Schema \<times> store" where
  "oneOf B vals msg st0 =
     (let a = counter st0 in
      (\<lparr> type = ''oneOf'', smessage = msg,
         parse = (\<lambda>st data.
            if data \<in> set (map JStr vals) then (Ok data, st)
            else
              (let st' = assignIfNullish a
                    (''Expected one of '' @ stringify B (JArr (map JStr vals)) @ '', but got '' @
                     stringify B data) st
               in (Err (err ''oneOf'' data (cells st' a)), st'))) \<rparr>,
       st0\<lparr> cells := (cells st0)(a := msg), counter := Suc a \<rparr>))"

definition lit :: "builtins \<Rightarrow> prim \<Rightarrow> string option \<Rightarrow> store \<Rightarrow> Schema \<times> store" where
  "lit B v msg st0 =
     (let a = counter st0 in
      (\<lparr> type = ''literal'', smessage = msg,
         parse = (\<lambda>st data.
            if strictEquals data v then (Ok (prim_val v), st)
            else
              (let st' = assignIfNullish a
                    (''Expected '' @ stringify B (prim_val v) @ '', but got '' @ stringify B data) st
               in (Err (err ''literal'' data (cells st' a)), st'))) \<rparr>,
       st0\<lparr> cells := (cells st0)(a := msg), counter := Suc a \<rparr>))"

subsection \<open>Object algebra\<close>

text \<open>\<open>Object.assign({}, ...sources)\<close> on property lists: the properties are assigned
  source by source, and the new object has them in the order of \<open>for ... in\<close>.\<close>

definition assign :: "(string \<times> 'a) list list \<Rightarrow> (string \<times> 'a) list" where
  "assign sources =
     forIn (foldl (\<lambda>acc src. foldl (\<lambda>acc' (k, v). setProp acc' k v) acc src) [] sources)"

definition extend :: "ObjectSchema list \<Rightarrow> string option \<Rightarrow> ObjectSchema" where
  "extend schemas msg = obj (assign (map props schemas)) msg"

text \<open>
  Modelled from the spec: \<open>pick\<close> and \<open>omit\<close> of \<open>@oxi/core\<close> are not under src/; \<open>select\<close>
  restricts the property map to the named keys and \<open>exclude\<close> omits them.
\<close>

definition pick :: "(string \<times> 'a) list \<Rightarrow> string list \<Rightarrow> (string \<times> 'a) list" where
  "pick ps keys = filter (\<lambda>(k, v). k \<in> set keys) ps"

definition omit :: "(string \<times> 'a) list \<Rightarrow> string list \<Rightarrow> (string \<times> 'a) list" where
  "omit ps keys = filter (\<lambda>(k, v). k \<notin> set keys) ps"

definition select :: "ObjectSchema \<Rightarrow> string list \<Rightarrow> string option \<Rightarrow> ObjectSchema" where
  "select schema keys msg = obj (pick (props schema) keys) msg"

definition exclude :: "ObjectSchema \<Rightarrow> string list \<Rightarrow> string option \<Rightarrow> ObjectSchema" where
  "exclude schema keys msg = obj (omit (props schema) keys) msg"

subsection \<open>Modifiers\<close>

definition opt :: "Schema \<Rightarrow> Schema" where
  "opt schema =
     \<lparr> type = ''optional'', smessage = None,
       parse = (\<lambda>st data.
          if isNil data then (Ok JNone, st)
          else (case parse schema st data of (r, st') \<Rightarrow> (mapOk JSome r, st'))) \<rparr>"

definition def :: "Schema \<Rightarrow> jsval \<Rightarrow> string option \<Rightarrow> Schema" where
  "def schema defaultValue msg =
     \<lparr> type = ''default'', smessage = msg,
       parse = (\<lambda>st data.
          if isNil data then (Ok defaultValue, st)
          else parse schema st data) \<rparr>"

text \<open>
  Modelled from the spec: \<open>partial\<close> is exported by the repository (the test
  \<open>Schema.partial\<close> calls it) but its code is not under src/. The spec: it builds a new
  object schema where every property schema is wrapped to also accept absence,
  equivalent to applying the optional modifier to each child.
\<close>

definition partial :: "ObjectSchema \<Rightarrow> ObjectSchema" where
  "partial schema = obj (map (\<lambda>(k, s). (k, opt s)) (props schema)) None"

subsection \<open>Transformations\<close>

type_synonym Pipe = "jsval \<Rightarrow> (jsval, string) Result"

text \<open>The loop of \<open>pipe\<close>: \<open>acc\<close> is the value so far; a failing step gives an error
  made from its message and \<open>acc\<close>.\<close>

fun pipe_loop :: "Pipe list \<Rightarrow> jsval \<Rightarrow> (jsval, ParseError) Result" where
  "pipe_loop [] acc = Ok acc"
| "pipe_loop (p # pipeline) acc =
     (case mapErr (\<lambda>m. err ''pipe'' acc (Some m)) (p acc) of
        Err e \<Rightarrow> Err e
      | Ok v \<Rightarrow> pipe_loop pipeline v
      | Throw t \<Rightarrow> Throw t)"

definition pipe :: "Schema \<Rightarrow> Pipe list \<Rightarrow> Schema" where
  "pipe schema pipeline =
     \<lparr> type = ''pipe'', smessage = None,
       parse = (\<lambda>st data.
          case parse schema st data of
            (r, st') \<Rightarrow> (andThen (\<lambda>v. pipe_loop pipeline v) r, st')) \<rparr>"

definition map_schema :: "Schema \<Rightarrow> Pipe \<Rightarrow> Schema" where
  "map_schema schema mapper =
     \<lparr> type = type schema, smessage = None,
       parse = (\<lambda>st data.
          case parse schema st data of
            (r, st') \<Rightarrow>
              (andThen (\<lambda>v. mapErr (\<lambda>m. err (type schema) v (Some m)) (mapper v)) r, st')) \<rparr>"

section \<open>Reference runs\<close>

text \<open>
  The definitions of this section are not in the source. They say what the statements
  below compare the loops of the source with (runs that do not stop at the first
  failure, paths that lead into an input, the schemas the constructors build), and
  name the objects and functions the examples use.
\<close>

definition emptyStore :: store where
  "emptyStore = \<lparr> cells = (\<lambda>a. None), counter = 0 \<rparr>"

text \<open>\<open>allFail schemas st x\<close> parses \<open>x\<close> with every schema in turn, each in the store
  the one before left; it is the last store when every one returns a failure.\<close>

fun allFail :: "Schema list \<Rightarrow> store \<Rightarrow> jsval \<Rightarrow> store option" where
  "allFail [] st x = Some st"
| "allFail (s # ss) st x =
     (case parse s st x of
        (Err e, st') \<Rightarrow> allFail ss st' x
      | (Ok v, st') \<Rightarrow> None
      | (Throw t, st') \<Rightarrow> None)"

text \<open>
  The object TypeScript builds for a numeric enum, \<open>enum User { Admin, User }\<close> of the
  test \<open>Schema.enum (default error)\<close>: each member name maps to its number and each
  number maps back to its name, \<open>{0: "Admin", 1: "User", Admin: 0, User: 1}\<close>.
\<close>

definition numericEnum :: "string list \<Rightarrow> (string \<times> prim) list" where
  "numericEnum names =
     map (\<lambda>(i, n). (toString i, PStr n)) (enumerate 0 names) @
     map (\<lambda>(i, n). (n, PNum (Finite (of_nat i)))) (enumerate 0 names)"

text \<open>The step \<open>() => Result.Err(m)\<close> of the test \<open>Schema.pipe (with errors)\<close>.\<close>

definition failWith :: "string \<Rightarrow> Pipe" where
  "failWith m v = Err m"

text \<open>
  A stand-in for the engine in the examples. One fact of the engine is used: \<open>Number\<close>
  and \<open>String\<close> raise a \<open>TypeError\<close> on an object whose \<open>toString\<close> and \<open>valueOf\<close> are
  both not functions. Such an object is \<open>{toString: null, valueOf: null}\<close>: its own
  \<open>toString\<close> and \<open>valueOf\<close> hide the inherited ones. On a number \<open>Number\<close> is the
  number; the other values are placeholders, which no example reads.
\<close>

definition isFunction :: "jsval \<Rightarrow> bool" where
  "isFunction v = (case v of JFunction f \<Rightarrow> True | _ \<Rightarrow> False)"

definition hasNoPrimitive :: "jsval \<Rightarrow> bool" where
  "hasNoPrimitive v =
     (case v of
        JObj ps \<Rightarrow> \<not> isFunction (getProp ps ''toString'') \<and> \<not> isFunction (getProp ps ''valueOf'')
      | _ \<Rightarrow> False)"

definition engine :: builtins where
  "engine =
     \<lparr> Number = (\<lambda>v. if hasNoPrimitive v
                      then Inl (TypeError ''Cannot convert object to primitive value'')
                      else Inr (case v of JNum n \<Rightarrow> n | _ \<Rightarrow> NaN)),
       String = (\<lambda>v. if hasNoPrimitive v
                      then Inl (TypeError ''Cannot convert object to primitive value'')
                      else Inr []),
       timeValue = (\<lambda>v. None),
       stringify = (\<lambda>v. []) \<rparr>"

text \<open>
  \<open>parseAll s st xs\<close> parses every element of \<open>xs\<close> with \<open>s\<close>, in order, each in the
  store the one before left, and does not stop early: it is the list of the values and
  the last store when every element passes, and \<open>None\<close> when one fails or makes \<open>s\<close>
  raise.
\<close>

fun parseAll :: "Schema \<Rightarrow> store \<Rightarrow> jsval list \<Rightarrow> (jsval list \<times> store) option" where
  "parseAll s st [] = Some ([], st)"
| "parseAll s st (x # xs) =
     (case parse s st x of
        (Err e, st') \<Rightarrow> None
      | (Throw t, st') \<Rightarrow> None
      | (Ok v, st') \<Rightarrow>
          (case parseAll s st' xs of
             None \<Rightarrow> None
           | Some (vs, st'') \<Rightarrow> Some (v # vs, st'')))"

text \<open>\<open>parseProps ps st d\<close> does the same for the declared properties \<open>ps\<close> on the
  properties \<open>d\<close> of the input.\<close>

fun parseProps ::
  "(string \<times> Schema) list \<Rightarrow> store \<Rightarrow> (string \<times> jsval) list \<Rightarrow> ((string \<times> jsval) list \<times> store) option"
where
  "parseProps [] st d = Some ([], st)"
| "parseProps ((k, s) # ps) st d =
     (case parse s st (getProp d k) of
        (Err e, st') \<Rightarrow> None
      | (Throw t, st') \<Rightarrow> None
      | (Ok v, st') \<Rightarrow>
          (case parseProps ps st' d of
             None \<Rightarrow> None
           | Some (vs, st'') \<Rightarrow> Some ((k, v) # vs, st'')))"

text \<open>
  \<open>parsePartial ps st d\<close> is the run of the declared properties in which a property
  whose input is \<open>undefined\<close> or \<open>null\<close> gives \<open>Option.None\<close> without its schema being
  asked, and any other gives \<open>Option.Some\<close> of what its schema returns.
\<close>

fun parsePartial ::
  "(string \<times> Schema) list \<Rightarrow> store \<Rightarrow> (string \<times> jsval) list \<Rightarrow> ((string \<times> jsval) list \<times> store) option"
where
  "parsePartial [] st d = Some ([], st)"
| "parsePartial ((k, s) # ps) st d =
     (if isNil (getProp d k)
      then (case parsePartial ps st d of
              None \<Rightarrow> None
            | Some (vs, st'') \<Rightarrow> Some ((k, JNone) # vs, st''))
      else (case parse s st (getProp d k) of
              (Err e, st') \<Rightarrow> None
            | (Throw t, st') \<Rightarrow> None
            | (Ok v, st') \<Rightarrow>
                (case parsePartial ps st' d of
                   None \<Rightarrow> None
                 | Some (vs, st'') \<Rightarrow> Some ((k, JSome v) # vs, st''))))"

text \<open>
  \<open>trail p x\<close>: the path \<open>p\<close>, read from its first segment, leads into the input \<open>x\<close>.
  On an array a segment must be the string of an index of the array, and the rest of
  the path leads into that element; on a plain object a segment is taken as a property
  name, and the rest leads into \<open>x[segment]\<close>; a value of any other kind is a leaf.
\<close>

primrec trail :: "string list \<Rightarrow> jsval \<Rightarrow> bool" where
  "trail [] x = True"
| "trail (seg # rest) x =
     (case x of
        JArr xs \<Rightarrow> list_ex (\<lambda>(i, y). seg = toString i \<and> trail rest y) (enumerate 0 xs)
      | JObj d \<Rightarrow> trail rest (getProp d seg)
      | _ \<Rightarrow> False)"

text \<open>
  A schema delivers root-to-leaf paths when the path of every error it returns leads
  into the input it was given, and flat errors when every error has the empty path.
\<close>

definition rootToLeaf :: "'a Schema_scheme \<Rightarrow> bool" where
  "rootToLeaf s = (\<forall>st x e st'. parse s st x = (Err e, st') \<longrightarrow> trail (path e) x)"

definition flatErrors :: "'a Schema_scheme \<Rightarrow> bool" where
  "flatErrors s = (\<forall>st x e st'. parse s st x = (Err e, st') \<longrightarrow> path e = [])"

definition primitiveTags :: "string set" where
  "primitiveTags = {''number'', ''string'', ''boolean'', ''date''}"

text \<open>
  The schemas built from the public constructors of \<open>mod.ts\<close>, and the object schemas
  among them (which keep their property map for \<open>extend\<close>, \<open>select\<close>, \<open>exclude\<close> and
  \<open>partial\<close>). An object schema is used as a child through \<open>Schema.truncate\<close>, which
  forgets the property map.
\<close>

inductive constructed :: "Schema \<Rightarrow> bool" and constructedObj :: "ObjectSchema \<Rightarrow> bool" where
  c_any: "constructed any"
| c_str: "constructed (str m)"
| c_num: "constructed (num m)"
| c_bool: "constructed (bool m)"
| c_date: "constructed (date m)"
| c_list: "constructed s \<Longrightarrow> constructed (list s m)"
| c_obj: "constructedObj ob \<Longrightarrow> constructed (Schema.truncate ob)"
| c_record: "constructed k \<Longrightarrow> constructed v \<Longrightarrow> constructed (record_schema B k v m)"
| c_union: "\<forall>s \<in> set ss. constructed s \<Longrightarrow> constructed (union_schema ss m)"
| c_tuple: "\<forall>s \<in> set ss. constructed s \<Longrightarrow> constructed (tuple ss m)"
| c_enum: "constructed (enum_schema en m)"
| c_oneOf: "constructed (fst (oneOf B vals m st))"
| c_lit: "constructed (fst (lit B lv m st))"
| c_opt: "constructed s \<Longrightarrow> constructed (opt s)"
| c_def: "constructed s \<Longrightarrow> constructed (def s dv m)"
| c_pipe: "constructed s \<Longrightarrow> constructed (pipe s pipeline)"
| c_map: "constructed s \<Longrightarrow> constructed (map_schema s mapper)"
| c_as: "constructed s \<Longrightarrow> as B s = Inr s' \<Longrightarrow> constructed s'"
| o_obj: "\<forall>s \<in> snd ` set ps. constructed s \<Longrightarrow> constructedObj (obj ps m)"
| o_extend: "\<forall>ob \<in> set obs. constructedObj ob \<Longrightarrow> constructedObj (extend obs m)"
| o_select: "constructedObj ob \<Longrightarrow> constructedObj (select ob keys m)"
| o_exclude: "constructedObj ob \<Longrightarrow> constructedObj (exclude ob keys m)"
| o_partial: "constructedObj ob \<Longrightarrow> constructedObj (partial ob)"


section \<open>Properties\<close>

subsection \<open>Results and errors\<close>

lemma isOk_conv: "isOk r \<longleftrightarrow> (\<exists>v. r = Ok v)"
  by (cases r) auto

lemma err_simps:
  "actual (err t v m) = getTypeOf v"
  "expected (err t v m) = t"
  "path (err t v m) = []"
  "value (err t v m) = v"
  by (simp_all add: err_def Let_def)

subsection \<open>Coercion\<close>

lemma parse_pre:
  "parse (pre s hook) st x =
     (case hook st x of Inl t \<Rightarrow> (Throw t, st) | Inr (d, st') \<Rightarrow> parse s st' d)"
  by (simp add: pre_def)

lemma type_pre: "type (pre s hook) = type s"
  by (simp add: pre_def)

lemma tryNum_raises: "tryNum B st x = Inl t \<longleftrightarrow> Number B x = Inl t"
  by (simp add: tryNum_def split: sum.splits)

lemma tryStr_raises: "tryStr B st x = Inl t \<longleftrightarrow> String B x = Inl t"
  by (simp add: tryStr_def split: sum.splits)

lemma tryBool_returns: "tryBool st x \<noteq> Inl t"
  by (simp add: tryBool_def split: jsval.splits)

lemma tryDate_returns: "tryDate B st x \<noteq> Inl t"
  by (simp add: tryDate_def)

lemma as_num_raises:
  "fst (parse (pre (num m) (tryNum B)) st x) = Throw t \<longleftrightarrow> Number B x = Inl t"
  by (cases "Number B x") (simp_all add: parse_pre tryNum_def num_def)

lemma as_str_raises:
  "fst (parse (pre (str m) (tryStr B)) st x) = Throw t \<longleftrightarrow> String B x = Inl t"
  by (cases "String B x") (simp_all add: parse_pre tryStr_def str_def)

lemma as_bool_returns: "fst (parse (pre (bool m) tryBool) st x) \<noteq> Throw t"
  by (simp add: parse_pre tryBool_def bool_def split: jsval.splits)

lemma as_date_returns: "fst (parse (pre (date m) (tryDate B)) st x) \<noteq> Throw t"
  by (simp add: parse_pre tryDate_def date_def)

text \<open>
  C7, as the code has it. A schema whose type tag is none of \<open>number\<close>, \<open>string\<close>,
  \<open>boolean\<close>, \<open>date\<close> makes \<open>as\<close> raise the configuration error when the schema is built:
  no schema is returned, so no \<open>parse\<close> can deliver the fault. For the four tags \<open>as\<close>
  returns a schema of the same tag whose \<open>parse\<close> casts the input and gives it to the
  schema's own \<open>parse\<close>. That \<open>parse\<close> can raise: the casts of \<open>number\<close> and \<open>string\<close>
  raise exactly when the engine's \<open>Number\<close> and \<open>String\<close> raise on the input, and then the
  exception leaves \<open>parse\<close>; the casts of \<open>boolean\<close> and \<open>date\<close> never raise. So
  \<open>as(num())\<close> and \<open>as(str())\<close> raise at parse time on exactly the inputs on which
  \<open>Number\<close> and \<open>String\<close> raise, and \<open>as(bool())\<close> and \<open>as(date())\<close> never do.
\<close>

theorem as_configuration_error:
  "(type s \<notin> {''number'', ''string'', ''boolean'', ''date''} \<longrightarrow>
      as B s = Inl (Error (''Cannot coerce \"'' @ type s @ ''\" to a primitive type'')))
   \<and> (type s = ''number'' \<longrightarrow> as B s = Inr (pre s (tryNum B)))
   \<and> (type s = ''string'' \<longrightarrow> as B s = Inr (pre s (tryStr B)))
   \<and> (type s = ''boolean'' \<longrightarrow> as B s = Inr (pre s tryBool))
   \<and> (type s = ''date'' \<longrightarrow> as B s = Inr (pre s (tryDate B)))
   \<and> type (pre s hook) = type s
   \<and> parse (pre s hook) st x =
        (case hook st x of Inl t \<Rightarrow> (Throw t, st) | Inr (d, st') \<Rightarrow> parse s st' d)
   \<and> (tryNum B st x = Inl t \<longleftrightarrow> Number B x = Inl t)
   \<and> (tryStr B st x = Inl t \<longleftrightarrow> String B x = Inl t)
   \<and> tryBool st x \<noteq> Inl t
   \<and> tryDate B st x \<noteq> Inl t
   \<and> (fst (parse (pre (num m) (tryNum B)) st x) = Throw t \<longleftrightarrow> Number B x = Inl t)
   \<and> (fst (parse (pre (str m) (tryStr B)) st x) = Throw t \<longleftrightarrow> String B x = Inl t)
   \<and> fst (parse (pre (bool m) tryBool) st x) \<noteq> Throw t
   \<and> fst (parse (pre (date m) (tryDate B)) st x) \<noteq> Throw t"
proof (intro conjI)
  show "type s \<notin> {''number'', ''string'', ''boolean'', ''date''} \<longrightarrow>
      as B s = Inl (Error (''Cannot coerce \"'' @ type s @ ''\" to a primitive type''))"
    by (simp add: as_def)
  show "type s = ''number'' \<longrightarrow> as B s = Inr (pre s (tryNum B))" by (simp add: as_def)
  show "type s = ''string'' \<longrightarrow> as B s = Inr (pre s (tryStr B))" by (simp add: as_def)
  show "type s = ''boolean'' \<longrightarrow> as B s = Inr (pre s tryBool)" by (simp add: as_def)
  show "type s = ''date'' \<longrightarrow> as B s = Inr (pre s (tryDate B))" by (simp add: as_def)
  show "type (pre s hook) = type s" by (rule type_pre)
  show "parse (pre s hook) st x =
        (case hook st x of Inl t \<Rightarrow> (Throw t, st) | Inr (d, st') \<Rightarrow> parse s st' d)"
    by (rule parse_pre)
  show "tryNum B st x = Inl t \<longleftrightarrow> Number B x = Inl t" by (rule tryNum_raises)
  show "tryStr B st x = Inl t \<longleftrightarrow> String B x = Inl t" by (rule tryStr_raises)
  show "tryBool st x \<noteq> Inl t" by (rule tryBool_returns)
  show "tryDate B st x \<noteq> Inl t" by (rule tryDate_returns)
  show "fst (parse (pre (num m) (tryNum B)) st x) = Throw t \<longleftrightarrow> Number B x = Inl t"
    by (rule as_num_raises)
  show "fst (parse (pre (str m) (tryStr B)) st x) = Throw t \<longleftrightarrow> String B x = Inl t"
    by (rule as_str_raises)
  show "fst (parse (pre (bool m) tryBool) st x) \<noteq> Throw t" by (rule as_bool_returns)
  show "fst (parse (pre (date m) (tryDate B)) st x) \<noteq> Throw t" by (rule as_date_returns)
qed

theorem as_configuration_error_witness:
  "as engine (list (str None) None) = Inl (Error ''Cannot coerce \"list\" to a primitive type'')
   \<and> as engine (num None) = Inr (pre (num None) (tryNum engine))
   \<and> parse (pre (num None) (tryNum engine)) emptyStore (JNum (Finite 5)) =
       (Ok (JNum (Finite 5)), emptyStore)"
proof -
  have a: "type (list (str None) None) = ''list''" by (simp add: list_def)
  have b: "type (num None) = ''number''" by (simp add: num_def)
  have c: "tryNum engine emptyStore (JNum (Finite 5)) = Inr (JNum (Finite 5), emptyStore)"
    by (simp add: tryNum_def engine_def hasNoPrimitive_def)
  have d: "parse (num None) emptyStore (JNum (Finite 5)) = (Ok (JNum (Finite 5)), emptyStore)"
    by (simp add: num_def)
  from as_configuration_error [of "list (str None) None" engine] a
  have 1: "as engine (list (str None) None) = Inl (Error ''Cannot coerce \"list\" to a primitive type'')"
    by simp
  from as_configuration_error [of "num None" engine] b
  have 2: "as engine (num None) = Inr (pre (num None) (tryNum engine))" by simp
  from as_configuration_error [of "num None" engine "tryNum engine" emptyStore "JNum (Finite 5)"] c d
  have 3: "parse (pre (num None) (tryNum engine)) emptyStore (JNum (Finite 5)) =
       (Ok (JNum (Finite 5)), emptyStore)" by simp
  from 1 2 3 show ?thesis by simp
qed

text \<open>
  The claim as the spec words it, that the schema \<open>as\<close> returns never throws at parse
  time, fails on the object \<open>{toString: null, valueOf: null}\<close>: \<open>Number\<close> raises a
  \<open>TypeError\<close> on it, and \<open>tryNum\<close> calls \<open>Number\<close> unguarded.
\<close>

theorem as_parse_throws_counterexample:
  "as engine (num None) = Inr (pre (num None) (tryNum engine))
   \<and> parse (pre (num None) (tryNum engine)) emptyStore
        (JObj [(''toString'', JNull), (''valueOf'', JNull)]) =
       (Throw (TypeError ''Cannot convert object to primitive value''), emptyStore)"
  by (simp add: as_def num_def pre_def tryNum_def engine_def hasNoPrimitive_def isFunction_def)

subsection \<open>Dates\<close>

text \<open>
  C6. \<open>date().parse(d)\<close> succeeds exactly when \<open>d\<close> is a date with a valid time value;
  any other input, the invalid date among them, is rejected with a \<open>date\<close> error. On
  success the result is a date with the time value of the input and the identity the
  store hands out next, which no object created before has: it is not the input object.
\<close>

theorem date_parse:
  "(isOk (fst (parse (date msg) st d)) \<longleftrightarrow> (\<exists>i t. d = JDate i (Some t)))
   \<and> (\<forall>i t. d = JDate i (Some t) \<longrightarrow>
         parse (date msg) st d = (Ok (JDate (counter st) (Some t)), st\<lparr> counter := Suc (counter st) \<rparr>)
         \<and> (i < counter st \<longrightarrow> JDate (counter st) (Some t) \<noteq> d))
   \<and> ((\<forall>i t. d \<noteq> JDate i (Some t)) \<longrightarrow> parse (date msg) st d = (Err (err ''date'' d msg), st))"
  by (cases d rule: isDate.cases) (auto simp: date_def)

theorem date_parse_witness:
  "fst (parse (date None) (emptyStore\<lparr> counter := 1 \<rparr>) (JDate 0 (Some 1640995200000))) =
     Ok (JDate 1 (Some 1640995200000))
   \<and> JDate 1 (Some 1640995200000) \<noteq> JDate 0 (Some 1640995200000)
   \<and> \<not> isOk (fst (parse (date None) emptyStore (JDate 0 None)))
   \<and> \<not> isOk (fst (parse (date None) emptyStore (JStr ''2022-01-01'')))"
  using date_parse [of None "emptyStore\<lparr> counter := 1 \<rparr>" "JDate 0 (Some 1640995200000)"]
        date_parse [of None emptyStore "JDate 0 None"]
        date_parse [of None emptyStore "JStr ''2022-01-01''"]
  by (simp add: emptyStore_def)

subsection \<open>Enums\<close>

lemma parse_enum:
  "parse (enum_schema e msg) st x =
     (if x \<in> prim_val ` snd ` set e then (Ok x, st) else (Err (err ''enum'' x msg), st))"
  by (simp add: enum_schema_def Let_def image_image)

lemma values_numericEnum_list:
  "map (prim_val \<circ> snd) (numericEnum names) =
     map JStr names @ map (\<lambda>i. JNum (Finite (of_nat i))) [0..<length names]"
proof -
  have 1: "map (\<lambda>x. JStr (snd x)) (enumerate k names) = map JStr names" for k
    by (induction names arbitrary: k) auto
  have 2: "map (\<lambda>x. JNum (Finite (of_nat (fst x)))) (enumerate k names) =
           map (\<lambda>i. JNum (Finite (of_nat i))) [k..<k + length names]" for k
    by (induction names arbitrary: k) (auto simp: upt_rec)
  show ?thesis
    by (simp add: numericEnum_def comp_def split_def 1 2)
qed

lemma values_numericEnum:
  "prim_val ` snd ` set (numericEnum names) =
     JStr ` set names \<union> (\<lambda>i. JNum (Finite (of_nat i))) ` {..<length names}"
proof -
  have "prim_val ` snd ` set (numericEnum names) = set (map (prim_val \<circ> snd) (numericEnum names))"
    by (simp add: image_image)
  also have "\<dots> = JStr ` set names \<union> (\<lambda>i. JNum (Finite (of_nat i))) ` {..<length names}"
    unfolding values_numericEnum_list by (simp add: atLeast0LessThan)
  finally show ?thesis .
qed

text \<open>
  C10. \<open>enum(e).parse(x)\<close> succeeds, and returns \<open>x\<close>, exactly when \<open>x\<close> is the value of
  a property of \<open>e\<close>. The object of a numeric TypeScript enum holds the reverse
  mappings, so the accepted values are the member names, as strings, and the member
  numbers.
\<close>

theorem enum_membership:
  "parse (enum_schema e msg) st x =
     (if x \<in> prim_val ` snd ` set e then (Ok x, st) else (Err (err ''enum'' x msg), st))
   \<and> (isOk (fst (parse (enum_schema (numericEnum names) msg) st x)) \<longleftrightarrow>
        x \<in> JStr ` set names \<union> (\<lambda>i. JNum (Finite (of_nat i))) ` {..<length names})"
  by (simp add: parse_enum values_numericEnum del: image_iff Un_iff)

theorem enum_membership_witness:
  "parse (enum_schema (numericEnum [''Admin'', ''User'']) None) emptyStore (JStr ''Admin'') =
     (Ok (JStr ''Admin''), emptyStore)
   \<and> parse (enum_schema (numericEnum [''Admin'', ''User'']) None) emptyStore (JNum (Finite 0)) =
     (Ok (JNum (Finite 0)), emptyStore)
   \<and> \<not> isOk (fst (parse (enum_schema (numericEnum [''Admin'', ''User'']) None) emptyStore
        (JStr ''Superuser'')))"
proof -
  have v: "prim_val ` snd ` set (numericEnum [''Admin'', ''User'']) =
      {JStr ''Admin'', JStr ''User'', JNum (Finite 0), JNum (Finite 1)}"
    by (auto simp: numericEnum_def)
  show ?thesis
    using enum_membership [of "numericEnum [''Admin'', ''User'']" None emptyStore "JStr ''Admin''"
            "[''Admin'', ''User'']"]
          enum_membership [of "numericEnum [''Admin'', ''User'']" None emptyStore "JNum (Finite 0)"
            "[''Admin'', ''User'']"]
          enum_membership [of "numericEnum [''Admin'', ''User'']" None emptyStore "JStr ''Superuser''"
            "[''Admin'', ''User'']"]
    by (simp add: v)
qed

subsection \<open>Pipelines\<close>

lemma pipe_loop_ok:
  "foldl (\<lambda>r p. andThen p r) (Ok v) pipeline = Ok w \<Longrightarrow> pipe_loop pipeline v = Ok w"
proof (induction pipeline arbitrary: v)
  case Nil then show ?case by simp
next
  case (Cons p ps)
  show ?case
  proof (cases "p v")
    case (Ok u)
    with Cons show ?thesis by simp
  next
    case (Err m)
    have "foldl (\<lambda>r p. andThen p r) (Err m) ps = Err m" for ps :: "Pipe list"
      by (induction ps) auto
    with Cons Err show ?thesis by simp
  next
    case (Throw t)
    have "foldl (\<lambda>r p. andThen p r) (Throw t) ps = Throw t" for ps :: "Pipe list"
      by (induction ps) auto
    with Cons Throw show ?thesis by simp
  qed
qed

lemma pipe_loop_err:
  "foldl (\<lambda>r p. andThen p r) (Ok v) before = Ok acc \<Longrightarrow> p acc = Err m \<Longrightarrow>
   pipe_loop (before @ p # after) v = Err (err ''pipe'' acc (Some m))"
proof (induction before arbitrary: v)
  case Nil then show ?case by simp
next
  case (Cons q qs)
  show ?case
  proof (cases "q v")
    case (Ok u)
    with Cons show ?thesis by simp
  next
    case (Err m')
    have "foldl (\<lambda>r p. andThen p r) (Err m') ps = Err m'" for ps :: "Pipe list"
      by (induction ps) auto
    with Cons Err show ?thesis by simp
  next
    case (Throw t)
    have "foldl (\<lambda>r p. andThen p r) (Throw t) ps = Throw t" for ps :: "Pipe list"
      by (induction ps) auto
    with Cons Throw show ?thesis by simp
  qed
qed

lemma parse_pipe:
  "parse (pipe schema pipeline) st x =
     (case parse schema st x of (r, st') \<Rightarrow> (andThen (\<lambda>v. pipe_loop pipeline v) r, st'))"
  by (simp add: pipe_def)

text \<open>
  C8, as the code has it. When the schema's own parse succeeds with \<open>v\<close>, the steps run
  in declared order, each on the value the one before returned. When all succeed the
  result is the last value. The first step that fails ends the run, whatever steps
  follow, with an error of expected type \<open>pipe\<close>, an empty path and the value the
  failing step was given; its message is the step's string when that is not empty, and
  the generated default \<open>Expected pipe, but got ...\<close> when it is.
\<close>

theorem pipe_steps:
  assumes "parse schema st x = (Ok v, st')"
  shows "(foldl (\<lambda>r p. andThen p r) (Ok v) pipeline = Ok w \<longrightarrow>
            parse (pipe schema pipeline) st x = (Ok w, st'))
       \<and> (pipeline = before @ p # after \<and> foldl (\<lambda>r p. andThen p r) (Ok v) before = Ok acc \<and>
            p acc = Err m \<longrightarrow>
            parse (pipe schema pipeline) st x =
              (Err \<lparr> actual = getTypeOf acc, expected = ''pipe'',
                     message = (if m \<noteq> [] then m else ''Expected pipe, but got '' @ getTypeOf acc),
                     path = [], value = acc \<rparr>, st'))"
  using assms by (auto simp: parse_pipe pipe_loop_ok pipe_loop_err err_def Let_def)

theorem pipe_steps_witness:
  "parse (pipe (str None) [failWith ''Invalid string'']) emptyStore (JStr ''hello'') =
     (Err \<lparr> actual = ''string'', expected = ''pipe'', message = ''Invalid string'',
            path = [], value = JStr ''hello'' \<rparr>, emptyStore)
   \<and> parse (pipe (str None) [Ok, Ok]) emptyStore (JStr ''hello'') = (Ok (JStr ''hello''), emptyStore)"
proof -
  have p: "parse (str None) emptyStore (JStr ''hello'') = (Ok (JStr ''hello''), emptyStore)"
    by (simp add: str_def)
  show ?thesis
    using pipe_steps [OF p, of "[failWith ''Invalid string'']" "JStr ''hello''" "[]"
            "failWith ''Invalid string''" "[]" "JStr ''hello''" "''Invalid string''"]
          pipe_steps [OF p, of "[Ok, Ok]" "JStr ''hello''" "[]" Ok "[Ok]" "JStr ''hello''" "[]"]
    by (simp add: failWith_def)
qed

text \<open>
  The claim as the spec words it, that the message is the string the step returned,
  fails for a step that returns the empty string: \<open>err\<close> takes it for no message.
\<close>

theorem pipe_empty_message_counterexample:
  "failWith [] (JStr ''a'') = Err []
   \<and> fst (parse (pipe (str None) [failWith []]) emptyStore (JStr ''a'')) =
       Err \<lparr> actual = ''string'', expected = ''pipe'', message = ''Expected pipe, but got string'',
              path = [], value = JStr ''a'' \<rparr>"
  by (simp add: pipe_def str_def failWith_def err_def Let_def)

subsection \<open>Unions\<close>

lemma parse_union:
  "parse (union_schema schemas msg) st x =
     union_loop schemas (Err (err (join '' | '' (map type schemas)) x msg)) st x"
  by (simp add: union_schema_def)

lemma union_loop_allFail:
  "allFail schemas st x = Some st' \<Longrightarrow> union_loop schemas r st x = (r, st')"
  by (induction schemas arbitrary: st) (auto split: prod.splits Result.splits)

lemma union_loop_first:
  "allFail before st x = Some st1 \<Longrightarrow> parse s st1 x = (Ok v, st2) \<Longrightarrow>
   union_loop (before @ s # after) r st x = (Ok v, st2)"
  by (induction before arbitrary: st) (auto split: prod.splits Result.splits)

lemma union_loop_throw:
  "allFail before st x = Some st1 \<Longrightarrow> parse s st1 x = (Throw t, st2) \<Longrightarrow>
   union_loop (before @ s # after) r st x = (Throw t, st2)"
  by (induction before arbitrary: st) (auto split: prod.splits Result.splits)

lemma union_loop_cases:
  "(\<exists>st'. allFail schemas st x = Some st') \<or>
   (\<exists>before s after st1 v st2. schemas = before @ s # after \<and> allFail before st x = Some st1 \<and>
        parse s st1 x = (Ok v, st2)) \<or>
   (\<exists>before s after st1 t st2. schemas = before @ s # after \<and> allFail before st x = Some st1 \<and>
        parse s st1 x = (Throw t, st2))"
proof (induction schemas arbitrary: st)
  case Nil then show ?case by simp
next
  case (Cons a ss)
  obtain r st' where p: "parse a st x = (r, st')" by (cases "parse a st x")
  show ?case
  proof (cases r)
    case (Ok v)
    with p have "a # ss = [] @ a # ss \<and> allFail [] st x = Some st \<and> parse a st x = (Ok v, st')" by simp
    then show ?thesis by blast
  next
    case (Throw t)
    with p have "a # ss = [] @ a # ss \<and> allFail [] st x = Some st \<and> parse a st x = (Throw t, st')"
      by simp
    then show ?thesis by blast
  next
    case (Err e)
    from Cons[of st'] consider
        (all) "\<exists>st''. allFail ss st' x = Some st''"
      | (ok) "\<exists>before s after st1 v st2. ss = before @ s # after \<and> allFail before st' x = Some st1 \<and>
                parse s st1 x = (Ok v, st2)"
      | (throw) "\<exists>before s after st1 t st2. ss = before @ s # after \<and> allFail before st' x = Some st1 \<and>
                parse s st1 x = (Throw t, st2)"
      by blast
    then show ?thesis
    proof cases
      case all
      with p Err show ?thesis by simp
    next
      case ok
      then obtain before s after st1 v st2 where
        h: "ss = before @ s # after" "allFail before st' x = Some st1" "parse s st1 x = (Ok v, st2)"
        by blast
      with p Err have "a # ss = (a # before) @ s # after \<and> allFail (a # before) st x = Some st1 \<and>
        parse s st1 x = (Ok v, st2)" by simp
      then show ?thesis by blast
    next
      case throw
      then obtain before s after st1 t st2 where
        h: "ss = before @ s # after" "allFail before st' x = Some st1" "parse s st1 x = (Throw t, st2)"
        by blast
      with p Err have "a # ss = (a # before) @ s # after \<and> allFail (a # before) st x = Some st1 \<and>
        parse s st1 x = (Throw t, st2)" by simp
      then show ?thesis by blast
    qed
  qed
qed

lemma allFail_append:
  "allFail (xs @ ys) st x = (case allFail xs st x of None \<Rightarrow> None | Some st' \<Rightarrow> allFail ys st' x)"
  by (induction xs arbitrary: st) (auto split: prod.splits Result.splits)

lemma union_isOk_iff:
  "isOk (fst (parse (union_schema schemas msg) st x)) \<longleftrightarrow>
     (\<exists>before s after st1. schemas = before @ s # after \<and> allFail before st x = Some st1 \<and>
         isOk (fst (parse s st1 x)))" (is "?L \<longleftrightarrow> ?R")
proof
  assume l: ?L
  from union_loop_cases[of schemas st x] consider
      (all) "\<exists>st'. allFail schemas st x = Some st'"
    | (ok) "\<exists>before s after st1 v st2. schemas = before @ s # after \<and>
              allFail before st x = Some st1 \<and> parse s st1 x = (Ok v, st2)"
    | (throw) "\<exists>before s after st1 t st2. schemas = before @ s # after \<and>
              allFail before st x = Some st1 \<and> parse s st1 x = (Throw t, st2)"
    by blast
  then show ?R
  proof cases
    case all
    with l show ?R by (auto simp: parse_union union_loop_allFail)
  next
    case ok
    then obtain before s after st1 v st2 where
      h: "schemas = before @ s # after" "allFail before st x = Some st1"
         "parse s st1 x = (Ok v, st2)" by blast
    from h(3) have "isOk (fst (parse s st1 x))" by simp
    with h(1,2) show ?R by blast
  next
    case throw
    then obtain before s after st1 t st2 where
      h: "schemas = before @ s # after" "allFail before st x = Some st1"
         "parse s st1 x = (Throw t, st2)" by blast
    from union_loop_throw[OF h(2,3)] h(1) l show ?R by (simp add: parse_union)
  qed
next
  assume ?R
  then obtain before s after st1 where
    h: "schemas = before @ s # after" "allFail before st x = Some st1" "isOk (fst (parse s st1 x))"
    by blast
  then obtain v st2 where "parse s st1 x = (Ok v, st2)"
    by (cases "parse s st1 x") (auto simp: isOk_conv)
  with h show ?L by (simp add: parse_union union_loop_first)
qed

lemma union_some_accepts:
  assumes nothrow: "\<forall>s \<in> set schemas. \<forall>st1 t. fst (parse s st1 x) \<noteq> Throw t"
    and acc: "\<exists>s \<in> set schemas. \<forall>st1. isOk (fst (parse s st1 x))"
  shows "isOk (fst (parse (union_schema schemas msg) st x))"
proof -
  from acc obtain s where s: "s \<in> set schemas" "\<And>st1. isOk (fst (parse s st1 x))" by blast
  from union_loop_cases[of schemas st x] consider
      (all) "\<exists>st'. allFail schemas st x = Some st'"
    | (ok) "\<exists>before s after st1 v st2. schemas = before @ s # after \<and>
              allFail before st x = Some st1 \<and> parse s st1 x = (Ok v, st2)"
    | (throw) "\<exists>before s after st1 t st2. schemas = before @ s # after \<and>
              allFail before st x = Some st1 \<and> parse s st1 x = (Throw t, st2)"
    by blast
  then show ?thesis
  proof cases
    case all
    then obtain st' where a: "allFail schemas st x = Some st'" by blast
    from s(1) obtain ys zs where sp: "schemas = ys @ s # zs" by (meson split_list)
    with a obtain st1 where "allFail ys st x = Some st1" "allFail (s # zs) st1 x = Some st'"
      by (auto simp: allFail_append split: option.splits)
    with s(2)[of st1] show ?thesis
      by (cases "parse s st1 x") (auto simp: isOk_conv split: Result.splits)
  next
    case ok
    then obtain before s after st1 v st2 where
      h: "schemas = before @ s # after" "allFail before st x = Some st1"
         "parse s st1 x = (Ok v, st2)" by blast
    then show ?thesis by (simp add: parse_union union_loop_first)
  next
    case throw
    then obtain before s' after st1 t st2 where
      h: "schemas = before @ s' # after" "parse s' st1 x = (Throw t, st2)" by blast
    from h(1) have "s' \<in> set schemas" by simp
    with nothrow have "fst (parse s' st1 x) \<noteq> Throw t" by blast
    with h(2) show ?thesis by simp
  qed
qed

text \<open>
  C3, as the code has it. \<open>union(schemas).parse(x)\<close> tries the alternatives in declared
  order. When every one returns a failure, the result is the error \<open>err\<close> builds from
  the type tags joined with \<open>" | "\<close>, the input and the union's message: its path is
  empty and nothing of it comes from an alternative's error. When an alternative
  succeeds after all before it have returned a failure, the result is that success.
  When an alternative raises an exception after all before it have returned a failure,
  the exception leaves \<open>parse\<close> and no later alternative is tried. So the union succeeds
  exactly when some alternative, reached in this way, succeeds. It succeeds when some
  alternative accepts \<open>x\<close> in every store, provided no alternative raises on \<open>x\<close>, and
  only if some alternative accepts \<open>x\<close>.
\<close>

theorem union_first_success:
  "(allFail schemas st x = Some st' \<longrightarrow>
      parse (union_schema schemas msg) st x =
        (Err (err (join '' | '' (map type schemas)) x msg), st')
      \<and> path (err (join '' | '' (map type schemas)) x msg) = []
      \<and> expected (err (join '' | '' (map type schemas)) x msg) = join '' | '' (map type schemas))
   \<and> (schemas = before @ s # after \<and> allFail before st x = Some st1 \<and> parse s st1 x = (Ok v, st2) \<longrightarrow>
        parse (union_schema schemas msg) st x = (Ok v, st2))
   \<and> (schemas = before @ s # after \<and> allFail before st x = Some st1 \<and> parse s st1 x = (Throw t, st2) \<longrightarrow>
        parse (union_schema schemas msg) st x = (Throw t, st2))
   \<and> (isOk (fst (parse (union_schema schemas msg) st x)) \<longleftrightarrow>
        (\<exists>before s after st1. schemas = before @ s # after \<and> allFail before st x = Some st1 \<and>
            isOk (fst (parse s st1 x))))
   \<and> ((\<forall>s \<in> set schemas. \<forall>st1 t. fst (parse s st1 x) \<noteq> Throw t) \<and>
       (\<exists>s \<in> set schemas. \<forall>st1. isOk (fst (parse s st1 x))) \<longrightarrow>
        isOk (fst (parse (union_schema schemas msg) st x)))
   \<and> (isOk (fst (parse (union_schema schemas msg) st x)) \<longrightarrow>
        (\<exists>s \<in> set schemas. \<exists>st1. isOk (fst (parse s st1 x))))"
proof (intro conjI)
  show "allFail schemas st x = Some st' \<longrightarrow>
      parse (union_schema schemas msg) st x =
        (Err (err (join '' | '' (map type schemas)) x msg), st')
      \<and> path (err (join '' | '' (map type schemas)) x msg) = []
      \<and> expected (err (join '' | '' (map type schemas)) x msg) = join '' | '' (map type schemas)"
    by (simp add: parse_union union_loop_allFail err_simps)
next
  show "schemas = before @ s # after \<and> allFail before st x = Some st1 \<and> parse s st1 x = (Ok v, st2) \<longrightarrow>
        parse (union_schema schemas msg) st x = (Ok v, st2)"
    by (simp add: parse_union union_loop_first)
next
  show "schemas = before @ s # after \<and> allFail before st x = Some st1 \<and> parse s st1 x = (Throw t, st2) \<longrightarrow>
        parse (union_schema schemas msg) st x = (Throw t, st2)"
    by (simp add: parse_union union_loop_throw)
next
  show "isOk (fst (parse (union_schema schemas msg) st x)) \<longleftrightarrow>
        (\<exists>before s after st1. schemas = before @ s # after \<and> allFail before st x = Some st1 \<and>
            isOk (fst (parse s st1 x)))"
    by (rule union_isOk_iff)
next
  show "(\<forall>s \<in> set schemas. \<forall>st1 t. fst (parse s st1 x) \<noteq> Throw t) \<and>
       (\<exists>s \<in> set schemas. \<forall>st1. isOk (fst (parse s st1 x))) \<longrightarrow>
        isOk (fst (parse (union_schema schemas msg) st x))"
  proof
    assume h: "(\<forall>s \<in> set schemas. \<forall>st1 t. fst (parse s st1 x) \<noteq> Throw t) \<and>
       (\<exists>s \<in> set schemas. \<forall>st1. isOk (fst (parse s st1 x)))"
    from h have a: "\<forall>s \<in> set schemas. \<forall>st1 t. fst (parse s st1 x) \<noteq> Throw t" by (rule conjunct1)
    from h have b: "\<exists>s \<in> set schemas. \<forall>st1. isOk (fst (parse s st1 x))" by (rule conjunct2)
    from a b show "isOk (fst (parse (union_schema schemas msg) st x))" by (rule union_some_accepts)
  qed
next
  show "isOk (fst (parse (union_schema schemas msg) st x)) \<longrightarrow>
        (\<exists>s \<in> set schemas. \<exists>st1. isOk (fst (parse s st1 x)))"
  proof
    assume "isOk (fst (parse (union_schema schemas msg) st x))"
    then obtain before s after st1 where
      h: "schemas = before @ s # after" "isOk (fst (parse s st1 x))"
      unfolding union_isOk_iff by blast
    from h(1) have "s \<in> set schemas" by simp
    with h(2) show "\<exists>s \<in> set schemas. \<exists>st1. isOk (fst (parse s st1 x))" by blast
  qed
qed

theorem union_first_success_witness:
  "parse (union_schema [str None, num None] None) emptyStore (JNum (Finite 123)) =
     (Ok (JNum (Finite 123)), emptyStore)
   \<and> parse (union_schema [str None, num None] None) emptyStore (JBool True) =
     (Err (err ''string | number'' (JBool True) None), emptyStore)
   \<and> parse (union_schema [str None, pre (num None) (tryNum engine), any] None) emptyStore
       (JObj [(''toString'', JNull), (''valueOf'', JNull)]) =
     (Throw (TypeError ''Cannot convert object to primitive value''), emptyStore)"
proof -
  have a: "allFail [str None] emptyStore (JNum (Finite 123)) = Some emptyStore"
    by (simp add: str_def)
  have b: "parse (num None) emptyStore (JNum (Finite 123)) = (Ok (JNum (Finite 123)), emptyStore)"
    by (simp add: num_def)
  have c: "allFail [str None, num None] emptyStore (JBool True) = Some emptyStore"
    by (simp add: str_def num_def)
  have t: "type (str None) = ''string''" "type (num None) = ''number''"
    by (simp_all add: str_def num_def)
  have d: "allFail [str None] emptyStore (JObj [(''toString'', JNull), (''valueOf'', JNull)]) =
             Some emptyStore"
    by (simp add: str_def)
  have e: "parse (pre (num None) (tryNum engine)) emptyStore
             (JObj [(''toString'', JNull), (''valueOf'', JNull)]) =
           (Throw (TypeError ''Cannot convert object to primitive value''), emptyStore)"
    by (simp add: num_def pre_def tryNum_def engine_def hasNoPrimitive_def isFunction_def)
  show ?thesis
    using union_first_success [where schemas = "[str None, num None]" and st = emptyStore
            and x = "JNum (Finite 123)" and st' = emptyStore and msg = None
            and before = "[str None]" and s = "num None" and after = "[]" and ?st1.0 = emptyStore
            and v = "JNum (Finite 123)" and ?st2.0 = emptyStore]
          union_first_success [where schemas = "[str None, num None]" and st = emptyStore
            and x = "JBool True" and st' = emptyStore and msg = None]
          union_first_success [where schemas = "[str None, pre (num None) (tryNum engine), any]"
            and st = emptyStore and x = "JObj [(''toString'', JNull), (''valueOf'', JNull)]"
            and msg = None and before = "[str None]" and s = "pre (num None) (tryNum engine)"
            and after = "[any]" and ?st1.0 = emptyStore
            and t = "TypeError ''Cannot convert object to primitive value''"
            and ?st2.0 = emptyStore]
    by (simp add: a b c d e t del: allFail.simps)
qed

text \<open>
  The claim as the spec words it, that the union succeeds whenever some alternative's
  parse of \<open>x\<close> succeeds, fails when an alternative declared before it raises an
  exception. \<open>any()\<close> accepts the object whose \<open>toString\<close> and \<open>valueOf\<close> are both \<open>null\<close>,
  but \<open>union([as(num()), any()])\<close> does not return on it: \<open>as(num())\<close> calls \<open>Number\<close> on
  the object, which raises a \<open>TypeError\<close>, and the loop of \<open>union\<close> does not catch it.
\<close>

theorem union_throw_counterexample:
  "as engine (num None) = Inr (pre (num None) (tryNum engine))
   \<and> parse any emptyStore (JObj [(''toString'', JNull), (''valueOf'', JNull)]) =
       (Ok (JObj [(''toString'', JNull), (''valueOf'', JNull)]), emptyStore)
   \<and> parse (union_schema [pre (num None) (tryNum engine), any] None) emptyStore
       (JObj [(''toString'', JNull), (''valueOf'', JNull)]) =
       (Throw (TypeError ''Cannot convert object to primitive value''), emptyStore)
   \<and> \<not> isOk (fst (parse (union_schema [pre (num None) (tryNum engine), any] None) emptyStore
       (JObj [(''toString'', JNull), (''valueOf'', JNull)])))"
  by (simp add: as_def any_def num_def pre_def tryNum_def engine_def hasNoPrimitive_def
        isFunction_def union_schema_def)

subsection \<open>Lists\<close>

lemma parse_list:
  "parse (list s msg) st x =
     (if \<not> isArray x then (Err (err ''list'' x msg), st) else list_loop s st 0 (elements x) [])"
  by (simp add: list_def)

lemma list_loop_all:
  "parseAll s st xs = Some (vs, st') \<Longrightarrow> list_loop s st i xs arr = (Ok (JList (arr @ vs)), st')"
proof (induction xs arbitrary: st i arr vs)
  case Nil
  then show ?case by simp
next
  case (Cons x xs)
  from Cons.prems obtain v st1 ws where
    p: "parse s st x = (Ok v, st1)" and r: "parseAll s st1 xs = Some (ws, st')" and vs: "vs = v # ws"
    by (auto split: prod.splits Result.splits option.splits)
  from Cons.IH[OF r, of "Suc i" "arr @ [v]"] p vs show ?case by simp
qed

lemma list_loop_first:
  "parseAll s st before = Some (vs, st1) \<Longrightarrow> parse s st1 x = (Err e, st2) \<Longrightarrow>
   list_loop s st i (before @ x # after) arr =
     (Err (e\<lparr> path := toString (i + length before) # path e \<rparr>), st2)"
proof (induction before arbitrary: st i arr vs)
  case Nil
  then show ?case by simp
next
  case (Cons y ys)
  from Cons.prems(1) obtain v st' ws where
    p: "parse s st y = (Ok v, st')" and r: "parseAll s st' ys = Some (ws, st1)"
    by (auto split: prod.splits Result.splits option.splits)
  from Cons.IH[OF r Cons.prems(2), of "Suc i" "arr @ [v]"] p show ?case by simp
qed

lemma parseAll_length: "parseAll s st xs = Some (vs, st') \<Longrightarrow> length vs = length xs"
  by (induction xs arbitrary: st vs) (auto split: prod.splits Result.splits option.splits)

lemma parseAll_nth:
  "parseAll s st xs = Some (vs, st') \<Longrightarrow> i < length xs \<Longrightarrow>
   \<exists>sti sti'. parseAll s st (take i xs) = Some (take i vs, sti) \<and>
              parse s sti (xs ! i) = (Ok (vs ! i), sti')"
proof (induction xs arbitrary: st vs i)
  case Nil
  then show ?case by simp
next
  case (Cons x xs)
  from Cons.prems(1) obtain v st1 ws where
    p: "parse s st x = (Ok v, st1)" and r: "parseAll s st1 xs = Some (ws, st')" and vs: "vs = v # ws"
    by (auto split: prod.splits Result.splits option.splits)
  show ?case
  proof (cases i)
    case 0
    with p vs show ?thesis by simp
  next
    case (Suc j)
    with Cons.prems(2) have "j < length xs" by simp
    from Cons.IH[OF r this] obtain sti sti' where
      "parseAll s st1 (take j xs) = Some (take j ws, sti)" "parse s sti (xs ! j) = (Ok (ws ! j), sti')"
      by blast
    with p vs Suc show ?thesis by simp
  qed
qed

lemma list_loop_throw:
  "parseAll s st before = Some (vs, st1) \<Longrightarrow> parse s st1 x = (Throw t, st2) \<Longrightarrow>
   list_loop s st i (before @ x # after) arr = (Throw t, st2)"
proof (induction before arbitrary: st i arr vs)
  case Nil
  then show ?case by simp
next
  case (Cons y ys)
  from Cons.prems(1) obtain v st' ws where
    p: "parse s st y = (Ok v, st')" and r: "parseAll s st' ys = Some (ws, st1)"
    by (auto split: prod.splits Result.splits option.splits)
  from Cons.IH[OF r Cons.prems(2), of "Suc i" "arr @ [v]"] p show ?case by simp
qed

lemma parseAll_None:
  "parseAll s st xs = None \<Longrightarrow>
   \<exists>before x after vs st1 st2. xs = before @ x # after \<and> parseAll s st before = Some (vs, st1) \<and>
      ((\<exists>e. parse s st1 x = (Err e, st2)) \<or> (\<exists>t. parse s st1 x = (Throw t, st2)))"
proof (induction xs arbitrary: st)
  case Nil
  then show ?case by simp
next
  case (Cons a xs)
  obtain r st' where p: "parse s st a = (r, st')" by (cases "parse s st a")
  show ?case
  proof (cases r)
    case (Err e)
    with p have "a # xs = [] @ a # xs \<and> parseAll s st [] = Some ([], st) \<and>
       ((\<exists>e. parse s st a = (Err e, st')) \<or> (\<exists>t. parse s st a = (Throw t, st')))"
      by simp
    then show ?thesis by blast
  next
    case (Throw t)
    with p have "a # xs = [] @ a # xs \<and> parseAll s st [] = Some ([], st) \<and>
       ((\<exists>e. parse s st a = (Err e, st')) \<or> (\<exists>t. parse s st a = (Throw t, st')))"
      by simp
    then show ?thesis by blast
  next
    case (Ok v)
    with p Cons.prems have "parseAll s st' xs = None" by (auto split: option.splits)
    from Cons.IH[OF this] obtain before x after vs st1 st2 where
      h: "xs = before @ x # after" "parseAll s st' before = Some (vs, st1)"
         "(\<exists>e. parse s st1 x = (Err e, st2)) \<or> (\<exists>t. parse s st1 x = (Throw t, st2))"
      by blast
    with p Ok have "a # xs = (a # before) @ x # after \<and>
       parseAll s st (a # before) = Some (v # vs, st1) \<and>
       ((\<exists>e. parse s st1 x = (Err e, st2)) \<or> (\<exists>t. parse s st1 x = (Throw t, st2)))" by simp
    then show ?thesis by blast
  qed
qed

lemma toString_1: "toString (Suc 0) = ''1''" "digit (Suc 0) = CHR ''1''"
  by (simp_all add: digit_def)

text \<open>
  C4, as the code has it. An input that is not an array fails with the error of
  expected type \<open>list\<close>. For an array whose elements all pass the child schema, parsed in
  index order, the result is the \<open>List\<close> of the child's results: as long as the input,
  its \<open>i\<close>-th element the child's result for the \<open>i\<close>-th input element. When the child
  returns a failure for an element after all before it have passed, the result is that
  element's error with its index, as a string, put before the path and nothing else
  changed, whatever elements follow. When the child raises an exception on an element
  after all before it have passed, the exception leaves \<open>parse\<close>, whatever elements
  follow. One of the three cases always holds.
\<close>

theorem list_elementwise:
  "(\<not> isArray x \<longrightarrow>
      parse (list s msg) st x = (Err (err ''list'' x msg), st) \<and> expected (err ''list'' x msg) = ''list'')
   \<and> (parseAll s st xs = Some (vs, st') \<longrightarrow>
        parse (list s msg) st (JArr xs) = (Ok (JList vs), st') \<and> length vs = length xs \<and>
        (\<forall>i < length xs. \<exists>sti sti'. parseAll s st (take i xs) = Some (take i vs, sti) \<and>
            parse s sti (xs ! i) = (Ok (vs ! i), sti')))
   \<and> (xs = before @ y # after \<and> parseAll s st before = Some (ws, st1) \<and> parse s st1 y = (Err e, st2) \<longrightarrow>
        parse (list s msg) st (JArr xs) = (Err (e\<lparr> path := toString (length before) # path e \<rparr>), st2))
   \<and> (xs = before @ y # after \<and> parseAll s st before = Some (ws, st1) \<and> parse s st1 y = (Throw t, st2) \<longrightarrow>
        parse (list s msg) st (JArr xs) = (Throw t, st2))
   \<and> (parseAll s st xs = None \<longrightarrow>
        (\<exists>before y after ws st1 st2. xs = before @ y # after \<and>
            parseAll s st before = Some (ws, st1) \<and>
            ((\<exists>e. parse s st1 y = (Err e, st2)) \<or> (\<exists>t. parse s st1 y = (Throw t, st2)))))"
proof (intro conjI impI allI)
  assume "\<not> isArray x"
  then show "parse (list s msg) st x = (Err (err ''list'' x msg), st)" by (simp add: parse_list)
next
  show "expected (err ''list'' x msg) = ''list''" by (simp add: err_simps)
next
  assume "parseAll s st xs = Some (vs, st')"
  from list_loop_all[OF this, of 0 "[]"]
  show "parse (list s msg) st (JArr xs) = (Ok (JList vs), st')" by (simp add: parse_list)
next
  assume "parseAll s st xs = Some (vs, st')"
  then show "length vs = length xs" by (rule parseAll_length)
next
  fix i assume "parseAll s st xs = Some (vs, st')" "i < length xs"
  then show "\<exists>sti sti'. parseAll s st (take i xs) = Some (take i vs, sti) \<and>
            parse s sti (xs ! i) = (Ok (vs ! i), sti')" by (rule parseAll_nth)
next
  assume "xs = before @ y # after \<and> parseAll s st before = Some (ws, st1) \<and> parse s st1 y = (Err e, st2)"
  then have a: "xs = before @ y # after" and b: "parseAll s st before = Some (ws, st1)"
    and c: "parse s st1 y = (Err e, st2)" by simp_all
  from list_loop_first[OF b c, of 0 after "[]"] a
  show "parse (list s msg) st (JArr xs) = (Err (e\<lparr> path := toString (length before) # path e \<rparr>), st2)"
    by (simp add: parse_list)
next
  assume "xs = before @ y # after \<and> parseAll s st before = Some (ws, st1) \<and> parse s st1 y = (Throw t, st2)"
  then have a: "xs = before @ y # after" and b: "parseAll s st before = Some (ws, st1)"
    and c: "parse s st1 y = (Throw t, st2)" by simp_all
  from list_loop_throw[OF b c, of 0 after "[]"] a
  show "parse (list s msg) st (JArr xs) = (Throw t, st2)"
    by (simp add: parse_list)
next
  assume "parseAll s st xs = None"
  then show "\<exists>before y after ws st1 st2. xs = before @ y # after \<and>
            parseAll s st before = Some (ws, st1) \<and>
            ((\<exists>e. parse s st1 y = (Err e, st2)) \<or> (\<exists>t. parse s st1 y = (Throw t, st2)))"
    by (rule parseAll_None)
qed

theorem list_elementwise_witness:
  "parse (list (str None) None) emptyStore (JArr [JStr ''hello'', JStr ''world'']) =
     (Ok (JList [JStr ''hello'', JStr ''world'']), emptyStore)
   \<and> parse (list (str None) None) emptyStore (JArr [JStr ''hello'', JNum (Finite 2), JBool True]) =
     (Err \<lparr> actual = ''number'', expected = ''string'',
            message = ''Expected string, but got number'', path = [''1''],
            value = JNum (Finite 2) \<rparr>, emptyStore)
   \<and> parse (list (str None) None) emptyStore (JObj []) = (Err (err ''list'' (JObj []) None), emptyStore)"
proof -
  have a: "parseAll (str None) emptyStore [JStr ''hello'', JStr ''world''] =
      Some ([JStr ''hello'', JStr ''world''], emptyStore)"
    by (simp add: str_def)
  have b: "parseAll (str None) emptyStore [JStr ''hello''] = Some ([JStr ''hello''], emptyStore)"
    by (simp add: str_def)
  have c: "parse (str None) emptyStore (JNum (Finite 2)) =
      (Err \<lparr> actual = ''number'', expected = ''string'',
            message = ''Expected string, but got number'', path = [],
            value = JNum (Finite 2) \<rparr>, emptyStore)"
    by (simp add: str_def err_def Let_def)
  have d: "\<not> isArray (JObj [])" by simp
  show ?thesis
    using list_elementwise [of "JObj []" "str None" None emptyStore
            "[JStr ''hello'', JStr ''world'']" "[JStr ''hello'', JStr ''world'']" emptyStore
            "[]" "JStr ''hello''" "[JStr ''world'']" "[]" emptyStore
            "\<lparr> actual = ''number'', expected = ''string'',
            message = ''Expected string, but got number'', path = [],
            value = JNum (Finite 2) \<rparr>" emptyStore]
          list_elementwise [of "JObj []" "str None" None emptyStore
            "[JStr ''hello'', JNum (Finite 2), JBool True]" "[]" emptyStore
            "[JStr ''hello'']" "JNum (Finite 2)" "[JBool True]" "[JStr ''hello'']" emptyStore
            "\<lparr> actual = ''number'', expected = ''string'',
            message = ''Expected string, but got number'', path = [],
            value = JNum (Finite 2) \<rparr>" emptyStore]
    by (simp add: a b c d toString_1 del: parseAll.simps)
qed

text \<open>
  The claim as the spec words it, that when some element fails the result is the error
  of the first failing element, fails when an element before it makes the child raise
  an exception. With the child \<open>pipe(as(num()), step)\<close>, whose step rejects every
  number, the element \<open>1\<close> fails, with an error of expected type \<open>pipe\<close>. But on the array
  of the object whose \<open>toString\<close> and \<open>valueOf\<close> are both \<open>null\<close>, followed by \<open>1\<close>,
  \<open>list\<close> returns no error: \<open>Number\<close> raises a \<open>TypeError\<close> on the first element, and the
  loop of \<open>list\<close> does not catch it.
\<close>

theorem list_throw_counterexample:
  "as engine (num None) = Inr (pre (num None) (tryNum engine))
   \<and> parse (pipe (pre (num None) (tryNum engine)) [failWith ''no'']) emptyStore (JNum (Finite 1)) =
       (Err \<lparr> actual = ''number'', expected = ''pipe'', message = ''no'', path = [],
              value = JNum (Finite 1) \<rparr>, emptyStore)
   \<and> parse (list (pipe (pre (num None) (tryNum engine)) [failWith ''no'']) None) emptyStore
       (JArr [JObj [(''toString'', JNull), (''valueOf'', JNull)], JNum (Finite 1)]) =
       (Throw (TypeError ''Cannot convert object to primitive value''), emptyStore)"
  by (simp add: as_def num_def pre_def tryNum_def engine_def hasNoPrimitive_def
        isFunction_def list_def pipe_def failWith_def err_def Let_def)


subsection \<open>Objects\<close>

lemma parse_obj:
  "parse (obj ps msg) st x =
     (if \<not> isPlainObject x then (Err (err ''object'' x msg), st)
      else obj_loop ps st (properties x) [])"
  by (simp add: obj_def)

lemma obj_loop_all:
  "parseProps ps st d = Some (vs, st') \<Longrightarrow>
   obj_loop ps st d acc = (Ok (JObj (foldl (\<lambda>a (k, v). setProp a k v) acc vs)), st')"
proof (induction ps arbitrary: st acc vs)
  case Nil
  then show ?case by simp
next
  case (Cons p ps)
  obtain k s where pk: "p = (k, s)" by (cases p)
  from Cons.prems pk obtain v st1 ws where
    p: "parse s st (getProp d k) = (Ok v, st1)" and r: "parseProps ps st1 d = Some (ws, st')"
    and vs: "vs = (k, v) # ws"
    by (auto split: prod.splits Result.splits option.splits)
  from Cons.IH[OF r, of "setProp acc k v"] p vs pk show ?case by simp
qed

lemma obj_loop_first:
  "parseProps before st d = Some (vs, st1) \<Longrightarrow> parse s st1 (getProp d key) = (Err e, st2) \<Longrightarrow>
   obj_loop (before @ (key, s) # after) st d acc = (Err (e\<lparr> path := key # path e \<rparr>), st2)"
proof (induction before arbitrary: st acc vs)
  case Nil
  then show ?case by simp
next
  case (Cons p ps)
  obtain k t where pk: "p = (k, t)" by (cases p)
  from Cons.prems(1) pk obtain v st' ws where
    p: "parse t st (getProp d k) = (Ok v, st')" and r: "parseProps ps st' d = Some (ws, st1)"
    by (auto split: prod.splits Result.splits option.splits)
  from Cons.IH[OF r Cons.prems(2), of "setProp acc k v"] p pk show ?case by simp
qed

lemma parseProps_keys: "parseProps ps st d = Some (vs, st') \<Longrightarrow> map fst vs = map fst ps"
  by (induction ps arbitrary: st vs) (auto split: prod.splits Result.splits option.splits)

lemma setProp_fresh: "key \<notin> fst ` set ps \<Longrightarrow> setProp ps key v = ps @ [(key, v)]"
  by (induction ps) auto

lemma assign_distinct:
  "distinct (map fst vs) \<Longrightarrow> fst ` set acc \<inter> fst ` set vs = {} \<Longrightarrow>
   foldl (\<lambda>a (k, v). setProp a k v) acc vs = acc @ vs"
proof (induction vs arbitrary: acc)
  case Nil
  then show ?case by simp
next
  case (Cons p vs)
  obtain k v where pk: "p = (k, v)" by (cases p)
  from Cons.prems pk have f: "k \<notin> fst ` set acc" by auto
  from Cons.prems pk have d: "distinct (map fst vs)" by simp
  from Cons.prems pk have i: "fst ` set (acc @ [(k, v)]) \<inter> fst ` set vs = {}" by auto
  from Cons.IH[OF d i] f pk show ?case by (simp add: setProp_fresh)
qed

lemma parseProps_nth:
  "parseProps ps st d = Some (vs, st') \<Longrightarrow> i < length ps \<Longrightarrow>
   \<exists>sti sti'. parseProps (take i ps) st d = Some (take i vs, sti) \<and>
      parse (snd (ps ! i)) sti (getProp d (fst (ps ! i))) = (Ok (snd (vs ! i)), sti')"
proof (induction ps arbitrary: st vs i)
  case Nil
  then show ?case by simp
next
  case (Cons p ps)
  obtain k s where pk: "p = (k, s)" by (cases p)
  from Cons.prems(1) pk obtain v st1 ws where
    p: "parse s st (getProp d k) = (Ok v, st1)" and r: "parseProps ps st1 d = Some (ws, st')"
    and vs: "vs = (k, v) # ws"
    by (auto split: prod.splits Result.splits option.splits)
  show ?case
  proof (cases i)
    case 0
    with p vs pk show ?thesis by simp
  next
    case (Suc j)
    with Cons.prems(2) have "j < length ps" by simp
    from Cons.IH[OF r this] obtain sti sti' where
      "parseProps (take j ps) st1 d = Some (take j ws, sti)"
      "parse (snd (ps ! j)) sti (getProp d (fst (ps ! j))) = (Ok (snd (ws ! j)), sti')"
      by blast
    with p vs Suc pk show ?thesis by simp
  qed
qed

lemma obj_loop_throw:
  "parseProps before st d = Some (vs, st1) \<Longrightarrow> parse s st1 (getProp d key) = (Throw t, st2) \<Longrightarrow>
   obj_loop (before @ (key, s) # after) st d acc = (Throw t, st2)"
proof (induction before arbitrary: st acc vs)
  case Nil
  then show ?case by simp
next
  case (Cons p ps)
  obtain k u where pk: "p = (k, u)" by (cases p)
  from Cons.prems(1) pk obtain v st' ws where
    p: "parse u st (getProp d k) = (Ok v, st')" and r: "parseProps ps st' d = Some (ws, st1)"
    by (auto split: prod.splits Result.splits option.splits)
  from Cons.IH[OF r Cons.prems(2), of "setProp acc k v"] p pk show ?case by simp
qed

lemma parseProps_None:
  "parseProps ps st d = None \<Longrightarrow>
   \<exists>before key s after vs st1 st2. ps = before @ (key, s) # after \<and>
      parseProps before st d = Some (vs, st1) \<and>
      ((\<exists>e. parse s st1 (getProp d key) = (Err e, st2)) \<or>
       (\<exists>t. parse s st1 (getProp d key) = (Throw t, st2)))"
proof (induction ps arbitrary: st)
  case Nil
  then show ?case by simp
next
  case (Cons p ps)
  obtain k u where pk: "p = (k, u)" by (cases p)
  obtain r st' where p: "parse u st (getProp d k) = (r, st')" by (cases "parse u st (getProp d k)")
  show ?case
  proof (cases r)
    case (Err e)
    with p pk have "p # ps = [] @ (k, u) # ps \<and> parseProps [] st d = Some ([], st) \<and>
        ((\<exists>e. parse u st (getProp d k) = (Err e, st')) \<or>
         (\<exists>t. parse u st (getProp d k) = (Throw t, st')))"
      by simp
    then show ?thesis by blast
  next
    case (Throw t)
    with p pk have "p # ps = [] @ (k, u) # ps \<and> parseProps [] st d = Some ([], st) \<and>
        ((\<exists>e. parse u st (getProp d k) = (Err e, st')) \<or>
         (\<exists>t. parse u st (getProp d k) = (Throw t, st')))"
      by simp
    then show ?thesis by blast
  next
    case (Ok v)
    with p pk Cons.prems have "parseProps ps st' d = None" by (auto split: option.splits)
    from Cons.IH[OF this] obtain before key s after vs st1 st2 where
      h: "ps = before @ (key, s) # after" "parseProps before st' d = Some (vs, st1)"
         "(\<exists>e. parse s st1 (getProp d key) = (Err e, st2)) \<or>
          (\<exists>t. parse s st1 (getProp d key) = (Throw t, st2))"
      by blast
    with p Ok pk have "p # ps = ((k, u) # before) @ (key, s) # after \<and>
       parseProps ((k, u) # before) st d = Some ((k, v) # vs, st1) \<and>
       ((\<exists>e. parse s st1 (getProp d key) = (Err e, st2)) \<or>
        (\<exists>t. parse s st1 (getProp d key) = (Throw t, st2)))" by simp
    then show ?thesis by blast
  qed
qed

lemma getProp_absent: "key \<notin> fst ` set d \<Longrightarrow> getProp d key = inherited key"
  by (induction d) auto

lemma inherited_undefined:
  "key \<notin> set prototypeFunctions \<Longrightarrow> key \<noteq> ''__proto__'' \<Longrightarrow> inherited key = JUndefined"
  by (simp add: inherited_def)

lemma inherited_member:
  "key \<in> set prototypeFunctions \<or> key = ''__proto__'' \<Longrightarrow> \<not> isNil (inherited key)"
  by (auto simp: inherited_def)

lemma objectLiteral_distinct:
  "distinct (map fst written) \<Longrightarrow>
   objectLiteral written =
     sort_key indexOf (filter (\<lambda>p. arrayIndex (fst p) \<noteq> None) written) @
     filter (\<lambda>p. arrayIndex (fst p) = None) written"
  using assign_distinct[of written "[]"] by (simp add: objectLiteral_def forIn_def)

lemma objectLiteral_declared:
  assumes "distinct (map fst written)" and "\<forall>p \<in> set written. arrayIndex (fst p) = None"
  shows "objectLiteral written = written"
proof -
  from assms(2) have "filter (\<lambda>p. arrayIndex (fst p) \<noteq> None) written = []"
    by (simp add: filter_empty_conv)
  moreover from assms(2) have "filter (\<lambda>p. arrayIndex (fst p) = None) written = written"
    by (simp add: filter_id_conv)
  ultimately show ?thesis using objectLiteral_distinct[OF assms(1)] by simp
qed

text \<open>
  C5, as the code has it. The property map \<open>ps\<close> of \<open>obj(ps)\<close> is an object, and the loop
  \<open>for (const key in props)\<close> visits its keys in the order of \<open>for ... in\<close>: for a map
  written as an object literal with distinct keys, the keys that are array indices
  first, by ascending index, and then the other keys in the order they are written.
  This is the order of declaration when no declared key is an array index.

  For a plain object \<open>d\<close>, \<open>obj(ps)\<close> parses \<open>d[key]\<close> for the keys of \<open>ps\<close> in that order.
  A key \<open>d\<close> does not have itself reads as what \<open>Object.prototype\<close> has under that name:
  \<open>undefined\<close>, which is nil, unless the key names a member of \<open>Object.prototype\<close>, and a
  value that is not nil when it does. When every property passes, the result is a new
  object whose keys are the keys of \<open>ps\<close>, in order, each with its child's result: a
  property of the input that is not declared is not in it. When a child returns a
  failure after all before it have passed, the result is that child's error with the
  key put before the path. When a child raises an exception after all before it have
  passed, the exception leaves \<open>parse\<close>. One of the three cases always holds.
\<close>

theorem obj_declared_keys:
  "(distinct (map fst ps) \<and> parseProps ps st d = Some (vs, st') \<longrightarrow>
        parse (obj ps msg) st (JObj d) = (Ok (JObj vs), st') \<and> map fst vs = map fst ps \<and>
        (\<forall>i < length ps. \<exists>sti sti'. parseProps (take i ps) st d = Some (take i vs, sti) \<and>
            parse (snd (ps ! i)) sti (getProp d (fst (ps ! i))) = (Ok (snd (vs ! i)), sti')))
   \<and> (ps = before @ (key, s) # after \<and> parseProps before st d = Some (ws, st1) \<and>
        parse s st1 (getProp d key) = (Err e, st2) \<longrightarrow>
        parse (obj ps msg) st (JObj d) = (Err (e\<lparr> path := key # path e \<rparr>), st2))
   \<and> (ps = before @ (key, s) # after \<and> parseProps before st d = Some (ws, st1) \<and>
        parse s st1 (getProp d key) = (Throw t, st2) \<longrightarrow>
        parse (obj ps msg) st (JObj d) = (Throw t, st2))
   \<and> (parseProps ps st d = None \<longrightarrow>
        (\<exists>before key s after ws st1 st2. ps = before @ (key, s) # after \<and>
            parseProps before st d = Some (ws, st1) \<and>
            ((\<exists>e. parse s st1 (getProp d key) = (Err e, st2)) \<or>
             (\<exists>t. parse s st1 (getProp d key) = (Throw t, st2)))))
   \<and> (k \<notin> fst ` set d \<and> k \<notin> set prototypeFunctions \<and> k \<noteq> ''__proto__'' \<longrightarrow>
        getProp d k = JUndefined \<and> isNil (getProp d k))
   \<and> (k \<notin> fst ` set d \<and> (k \<in> set prototypeFunctions \<or> k = ''__proto__'') \<longrightarrow>
        getProp d k = inherited k \<and> \<not> isNil (getProp d k))
   \<and> (distinct (map fst written) \<longrightarrow>
        props (obj (objectLiteral written) msg) =
          sort_key indexOf (filter (\<lambda>p. arrayIndex (fst p) \<noteq> None) written) @
          filter (\<lambda>p. arrayIndex (fst p) = None) written)
   \<and> (distinct (map fst written) \<and> (\<forall>p \<in> set written. arrayIndex (fst p) = None) \<longrightarrow>
        props (obj (objectLiteral written) msg) = written)"
proof (intro conjI)
  show "distinct (map fst ps) \<and> parseProps ps st d = Some (vs, st') \<longrightarrow>
        parse (obj ps msg) st (JObj d) = (Ok (JObj vs), st') \<and> map fst vs = map fst ps \<and>
        (\<forall>i < length ps. \<exists>sti sti'. parseProps (take i ps) st d = Some (take i vs, sti) \<and>
            parse (snd (ps ! i)) sti (getProp d (fst (ps ! i))) = (Ok (snd (vs ! i)), sti'))"
  proof (intro impI conjI allI)
    assume h: "distinct (map fst ps) \<and> parseProps ps st d = Some (vs, st')"
    then have pp: "parseProps ps st d = Some (vs, st')" by simp
    then have keys: "map fst vs = map fst ps" by (rule parseProps_keys)
    with h have "distinct (map fst vs)" by simp
    then have "foldl (\<lambda>a (k, v). setProp a k v) [] vs = vs"
      using assign_distinct[of vs "[]"] by simp
    with obj_loop_all[of ps st d vs st' "[]"] h
    show "parse (obj ps msg) st (JObj d) = (Ok (JObj vs), st')" by (simp add: parse_obj)
    show "map fst vs = map fst ps" by (rule keys)
  next
    fix i assume "distinct (map fst ps) \<and> parseProps ps st d = Some (vs, st')" "i < length ps"
    then have "parseProps ps st d = Some (vs, st')" "i < length ps" by simp_all
    then show "\<exists>sti sti'. parseProps (take i ps) st d = Some (take i vs, sti) \<and>
              parse (snd (ps ! i)) sti (getProp d (fst (ps ! i))) = (Ok (snd (vs ! i)), sti')"
      by (rule parseProps_nth)
  qed
next
  show "ps = before @ (key, s) # after \<and> parseProps before st d = Some (ws, st1) \<and>
        parse s st1 (getProp d key) = (Err e, st2) \<longrightarrow>
        parse (obj ps msg) st (JObj d) = (Err (e\<lparr> path := key # path e \<rparr>), st2)"
  proof
    assume "ps = before @ (key, s) # after \<and> parseProps before st d = Some (ws, st1) \<and>
          parse s st1 (getProp d key) = (Err e, st2)"
    then have a: "ps = before @ (key, s) # after" and b: "parseProps before st d = Some (ws, st1)"
      and c: "parse s st1 (getProp d key) = (Err e, st2)" by simp_all
    from obj_loop_first[OF b c, of after "[]"] a
    show "parse (obj ps msg) st (JObj d) = (Err (e\<lparr> path := key # path e \<rparr>), st2)"
      by (simp add: parse_obj)
  qed
next
  show "ps = before @ (key, s) # after \<and> parseProps before st d = Some (ws, st1) \<and>
        parse s st1 (getProp d key) = (Throw t, st2) \<longrightarrow>
        parse (obj ps msg) st (JObj d) = (Throw t, st2)"
  proof
    assume "ps = before @ (key, s) # after \<and> parseProps before st d = Some (ws, st1) \<and>
          parse s st1 (getProp d key) = (Throw t, st2)"
    then have a: "ps = before @ (key, s) # after" and b: "parseProps before st d = Some (ws, st1)"
      and c: "parse s st1 (getProp d key) = (Throw t, st2)" by simp_all
    from obj_loop_throw[OF b c, of after "[]"] a
    show "parse (obj ps msg) st (JObj d) = (Throw t, st2)"
      by (simp add: parse_obj)
  qed
next
  show "parseProps ps st d = None \<longrightarrow>
        (\<exists>before key s after ws st1 st2. ps = before @ (key, s) # after \<and>
            parseProps before st d = Some (ws, st1) \<and>
            ((\<exists>e. parse s st1 (getProp d key) = (Err e, st2)) \<or>
             (\<exists>t. parse s st1 (getProp d key) = (Throw t, st2))))"
    by (rule impI) (rule parseProps_None)
next
  show "k \<notin> fst ` set d \<and> k \<notin> set prototypeFunctions \<and> k \<noteq> ''__proto__'' \<longrightarrow>
        getProp d k = JUndefined \<and> isNil (getProp d k)"
    by (simp add: getProp_absent inherited_undefined)
next
  show "k \<notin> fst ` set d \<and> (k \<in> set prototypeFunctions \<or> k = ''__proto__'') \<longrightarrow>
        getProp d k = inherited k \<and> \<not> isNil (getProp d k)"
  proof
    assume h: "k \<notin> fst ` set d \<and> (k \<in> set prototypeFunctions \<or> k = ''__proto__'')"
    then have g: "getProp d k = inherited k" by (simp add: getProp_absent)
    from h have "\<not> isNil (inherited k)" by (intro inherited_member) simp
    with g show "getProp d k = inherited k \<and> \<not> isNil (getProp d k)" by simp
  qed
next
  show "distinct (map fst written) \<longrightarrow>
        props (obj (objectLiteral written) msg) =
          sort_key indexOf (filter (\<lambda>p. arrayIndex (fst p) \<noteq> None) written) @
          filter (\<lambda>p. arrayIndex (fst p) = None) written"
    by (simp add: obj_def objectLiteral_distinct)
next
  show "distinct (map fst written) \<and> (\<forall>p \<in> set written. arrayIndex (fst p) = None) \<longrightarrow>
        props (obj (objectLiteral written) msg) = written"
    by (simp add: obj_def objectLiteral_declared)
qed

lemma arrayIndex_examples:
  "arrayIndex ''name'' = None" "arrayIndex ''age'' = None" "arrayIndex ''b'' = None"
  "arrayIndex ''1'' = Some 1"
  by (simp_all add: arrayIndex_def digitValue_def Let_def)

theorem obj_declared_keys_witness:
  "parse (obj [(''name'', str None), (''age'', num None)] None) emptyStore
      (JObj [(''name'', JStr ''John''), (''extra'', JBool True), (''age'', JNum (Finite 30))]) =
     (Ok (JObj [(''name'', JStr ''John''), (''age'', JNum (Finite 30))]), emptyStore)
   \<and> parse (obj [(''name'', str None), (''age'', num None)] None) emptyStore
      (JObj [(''name'', JStr ''John'')]) =
     (Err \<lparr> actual = ''undefined'', expected = ''number'',
            message = ''Expected number, but got undefined'', path = [''age''],
            value = JUndefined \<rparr>, emptyStore)
   \<and> getProp [(''name'', JStr ''John'')] ''age'' = JUndefined
   \<and> getProp [(''name'', JStr ''John'')] ''toString'' = JFunction ''toString''
   \<and> props (obj (objectLiteral [(''name'', str None), (''age'', num None)]) None) =
       [(''name'', str None), (''age'', num None)]"
proof -
  let ?ps = "[(''name'', str None), (''age'', num None)]"
  let ?d1 = "[(''name'', JStr ''John''), (''extra'', JBool True), (''age'', JNum (Finite 30))]"
  let ?d2 = "[(''name'', JStr ''John'')]"
  let ?e = "\<lparr> actual = ''undefined'', expected = ''number'',
            message = ''Expected number, but got undefined'', path = [],
            value = JUndefined \<rparr>"
  have u: "getProp ?d2 ''age'' = JUndefined"
    by (simp add: inherited_def prototypeFunctions_def)
  have a: "parseProps ?ps emptyStore ?d1 =
      Some ([(''name'', JStr ''John''), (''age'', JNum (Finite 30))], emptyStore)"
    by (simp add: str_def num_def)
  have b: "parseProps [(''name'', str None)] emptyStore ?d2 = Some ([(''name'', JStr ''John'')], emptyStore)"
    by (simp add: str_def)
  have c: "parse (num None) emptyStore (getProp ?d2 ''age'') = (Err ?e, emptyStore)"
    unfolding u by (simp add: num_def err_def Let_def)
  have k: "''age'' \<notin> fst ` set ?d2" "''toString'' \<notin> fst ` set ?d2" by simp_all
  have m: "''age'' \<notin> set prototypeFunctions" "''toString'' \<in> set prototypeFunctions"
    by (simp_all add: prototypeFunctions_def)
  have i: "inherited ''toString'' = JFunction ''toString''"
    by (simp add: inherited_def prototypeFunctions_def)
  have n: "\<forall>p \<in> set ?ps. arrayIndex (fst p) = None"
    by (simp add: arrayIndex_examples)
  show ?thesis
    using obj_declared_keys [where ps = ?ps and st = emptyStore and d = ?d1
            and vs = "[(''name'', JStr ''John''), (''age'', JNum (Finite 30))]" and st' = emptyStore
            and msg = None and k = "''age''" and written = ?ps]
          obj_declared_keys [where ps = ?ps and st = emptyStore and d = ?d2
            and msg = None and before = "[(''name'', str None)]" and key = "''age''"
            and s = "num None" and after = "[]" and ws = "[(''name'', JStr ''John'')]"
            and ?st1.0 = emptyStore and e = ?e and ?st2.0 = emptyStore and k = "''age''"]
          obj_declared_keys [where d = ?d2 and k = "''toString''"]
    using a b c k m i n
    by (simp del: parseProps.simps getProp.simps)
qed

text \<open>
  The claim as the spec words it fails in two ways. First, the keys are not visited in
  the order of declaration when one of them is an array index: for the map
  \<open>{b: str(), 1: num()}\<close> the key \<open>1\<close> comes first, so on the input \<open>{}\<close>, where both
  properties fail, the error is that of \<open>1\<close> and not that of \<open>b\<close>. Second, an absent
  key is not always validated as a nil input: \<open>{}\<close> has no property \<open>toString\<close> of its
  own, but \<open>data["toString"]\<close> is the function it inherits, so \<open>obj({toString: opt(str())})\<close>
  fails on \<open>{}\<close>, although \<open>opt(str())\<close> accepts a nil input.
\<close>

theorem obj_order_counterexample:
  "props (obj (objectLiteral [(''b'', str None), (''1'', num None)]) None) =
     [(''1'', num None), (''b'', str None)]
   \<and> parse (obj (objectLiteral [(''b'', str None), (''1'', num None)]) None) emptyStore (JObj []) =
       (Err ((err ''number'' JUndefined None)\<lparr> path := [''1''] \<rparr>), emptyStore)
   \<and> parse (str None) emptyStore (getProp [] ''b'') = (Err (err ''string'' JUndefined None), emptyStore)
   \<and> parse (opt (str None)) emptyStore JUndefined = (Ok JNone, emptyStore)
   \<and> parse (obj [(''toString'', opt (str None))] None) emptyStore (JObj []) =
       (Err ((err ''string'' (JFunction ''toString'') None)\<lparr> path := [''toString''] \<rparr>), emptyStore)"
  by (simp add: obj_def objectLiteral_def forIn_def indexOf_def arrayIndex_examples str_def num_def
        opt_def inherited_def prototypeFunctions_def err_def Let_def)


subsection \<open>Partial object schemas\<close>

lemma parse_opt:
  "parse (opt s) st x =
     (if isNil x then (Ok JNone, st) else (case parse s st x of (r, st') \<Rightarrow> (mapOk JSome r, st')))"
  by (simp add: opt_def)

lemma props_partial: "props (partial schema) = map (\<lambda>(k, s). (k, opt s)) (props schema)"
  by (simp add: partial_def obj_def)

lemma parse_partial:
  "parse (partial schema) st x =
     (if \<not> isPlainObject x then (Err (err ''object'' x None), st)
      else obj_loop (map (\<lambda>(k, s). (k, opt s)) (props schema)) st (properties x) [])"
  by (simp add: partial_def obj_def)

lemma parseProps_opt:
  "parseProps (map (\<lambda>(k, s). (k, opt s)) ps) st d = parsePartial ps st d"
proof (induction ps arbitrary: st)
  case Nil
  then show ?case by simp
next
  case (Cons p ps)
  obtain k s where pk: "p = (k, s)" by (cases p)
  show ?case
  proof (cases "isNil (getProp d k)")
    case True
    with Cons pk show ?thesis by (simp add: parse_opt)
  next
    case False
    obtain r st' where p: "parse s st (getProp d k) = (r, st')" by (cases "parse s st (getProp d k)")
    with False Cons pk show ?thesis by (cases r) (simp_all add: parse_opt)
  qed
qed

lemma parsePartial_keys: "parsePartial ps st d = Some (vs, st') \<Longrightarrow> map fst vs = map fst ps"
  by (induction ps arbitrary: st vs)
     (auto split: prod.splits Result.splits option.splits if_splits)

lemma parsePartial_all_nil:
  "\<forall>k \<in> fst ` set ps. isNil (getProp d k) \<Longrightarrow>
   parsePartial ps st d = Some (map (\<lambda>(k, s). (k, JNone)) ps, st)"
  by (induction ps) auto

lemma parsePartial_nth:
  "parsePartial ps st d = Some (vs, st') \<Longrightarrow> i < length ps \<Longrightarrow>
   (isNil (getProp d (fst (ps ! i))) \<longrightarrow> snd (vs ! i) = JNone) \<and>
   (\<not> isNil (getProp d (fst (ps ! i))) \<longrightarrow>
      (\<exists>sti sti' v. parse (snd (ps ! i)) sti (getProp d (fst (ps ! i))) = (Ok v, sti') \<and>
          snd (vs ! i) = JSome v))"
proof (induction ps arbitrary: st vs i)
  case Nil
  then show ?case by simp
next
  case (Cons p ps)
  obtain k s where pk: "p = (k, s)" by (cases p)
  show ?case
  proof (cases "isNil (getProp d k)")
    case True
    with Cons.prems(1) pk obtain ws where
      r: "parsePartial ps st d = Some (ws, st')" and vs: "vs = (k, JNone) # ws"
      by (auto split: option.splits)
    show ?thesis
    proof (cases i)
      case 0
      with True vs pk show ?thesis by simp
    next
      case (Suc j)
      with Cons.prems(2) have "j < length ps" by simp
      from Cons.IH[OF r this] vs Suc show ?thesis by simp
    qed
  next
    case False
    with Cons.prems(1) pk obtain v st1 ws where
      p: "parse s st (getProp d k) = (Ok v, st1)" and
      r: "parsePartial ps st1 d = Some (ws, st')" and vs: "vs = (k, JSome v) # ws"
      by (auto split: prod.splits Result.splits option.splits)
    show ?thesis
    proof (cases i)
      case 0
      with False vs pk p show ?thesis by auto
    next
      case (Suc j)
      with Cons.prems(2) have "j < length ps" by simp
      from Cons.IH[OF r this] vs Suc show ?thesis by simp
    qed
  qed
qed

text \<open>
  C9, as the model of \<open>partial\<close> has it. \<open>partial(schema)\<close> is the object schema of the
  same keys with every property schema wrapped by \<open>opt\<close>, which accepts \<open>undefined\<close> and
  \<open>null\<close>. On a plain object a declared key that reads as \<open>null\<close> or \<open>undefined\<close>, as a
  missing key does unless it names a member of \<open>Object.prototype\<close>, gives
  \<open>Option.None\<close>; any other value is parsed by the property schema and gives
  \<open>Option.Some\<close> of its result. So an object on which every declared key reads as nil
  passes, and the first key whose value is not nil and fails its property schema makes
  the parse fail with that error, the key put before the path.
\<close>

theorem partial_accepts_absence:
  "props (partial schema) = map (\<lambda>(k, s). (k, opt s)) (props schema)
   \<and> (\<forall>s st. parse (opt s) st JUndefined = (Ok JNone, st) \<and> parse (opt s) st JNull = (Ok JNone, st))
   \<and> (distinct (map fst (props schema)) \<and> parsePartial (props schema) st d = Some (vs, st') \<longrightarrow>
        parse (partial schema) st (JObj d) = (Ok (JObj vs), st') \<and>
        map fst vs = map fst (props schema) \<and>
        (\<forall>i < length (props schema).
            (isNil (getProp d (fst (props schema ! i))) \<longrightarrow> snd (vs ! i) = JNone) \<and>
            (\<not> isNil (getProp d (fst (props schema ! i))) \<longrightarrow>
               (\<exists>sti sti' v. parse (snd (props schema ! i)) sti (getProp d (fst (props schema ! i))) =
                    (Ok v, sti') \<and> snd (vs ! i) = JSome v))))
   \<and> (distinct (map fst (props schema)) \<and> (\<forall>k \<in> fst ` set (props schema). isNil (getProp d k)) \<longrightarrow>
        parse (partial schema) st (JObj d) =
          (Ok (JObj (map (\<lambda>(k, s). (k, JNone)) (props schema))), st))
   \<and> (props schema = before @ (key, s) # after \<and> parsePartial before st d = Some (ws, st1) \<and>
        \<not> isNil (getProp d key) \<and> parse s st1 (getProp d key) = (Err e, st2) \<longrightarrow>
        parse (partial schema) st (JObj d) = (Err (e\<lparr> path := key # path e \<rparr>), st2))"
proof (intro conjI impI allI)
  show "props (partial schema) = map (\<lambda>(k, s). (k, opt s)) (props schema)"
    by (rule props_partial)
next
  fix s st
  show "parse (opt s) st JUndefined = (Ok JNone, st)" by (simp add: parse_opt)
  show "parse (opt s) st JNull = (Ok JNone, st)" by (simp add: parse_opt)
next
  assume h: "distinct (map fst (props schema)) \<and> parsePartial (props schema) st d = Some (vs, st')"
  then have pp: "parsePartial (props schema) st d = Some (vs, st')" by simp
  then have keys: "map fst vs = map fst (props schema)" by (rule parsePartial_keys)
  with h have "distinct (map fst vs)" by simp
  then have "foldl (\<lambda>a (k, v). setProp a k v) [] vs = vs"
    using assign_distinct[of vs "[]"] by simp
  with obj_loop_all[of "map (\<lambda>(k, s). (k, opt s)) (props schema)" st d vs st' "[]"] pp
  show "parse (partial schema) st (JObj d) = (Ok (JObj vs), st')"
    by (simp add: parse_partial parseProps_opt)
  show "map fst vs = map fst (props schema)" by (rule keys)
next
  fix i
  assume "distinct (map fst (props schema)) \<and> parsePartial (props schema) st d = Some (vs, st')"
    and i: "i < length (props schema)"
  then have pp: "parsePartial (props schema) st d = Some (vs, st')" by simp
  assume n: "isNil (getProp d (fst (props schema ! i)))"
  from parsePartial_nth[OF pp i] n
  show "snd (vs ! i) = JNone" by simp
next
  fix i
  assume "distinct (map fst (props schema)) \<and> parsePartial (props schema) st d = Some (vs, st')"
    and i: "i < length (props schema)"
  then have pp: "parsePartial (props schema) st d = Some (vs, st')" by simp
  assume n: "\<not> isNil (getProp d (fst (props schema ! i)))"
  from parsePartial_nth[OF pp i] n
  show "\<exists>sti sti' v. parse (snd (props schema ! i)) sti (getProp d (fst (props schema ! i))) =
                    (Ok v, sti') \<and> snd (vs ! i) = JSome v" by simp
next
  assume h: "distinct (map fst (props schema)) \<and> (\<forall>k \<in> fst ` set (props schema). isNil (getProp d k))"
  then have pp: "parsePartial (props schema) st d = Some (map (\<lambda>(k, s). (k, JNone)) (props schema), st)"
    by (simp add: parsePartial_all_nil)
  from h have "distinct (map fst (map (\<lambda>(k, s). (k, JNone)) (props schema)))"
    by (simp add: comp_def split_def)
  then have "foldl (\<lambda>a (k, v). setProp a k v) [] (map (\<lambda>(k, s). (k, JNone)) (props schema)) =
      map (\<lambda>(k, s). (k, JNone)) (props schema)"
    using assign_distinct[of "map (\<lambda>(k, s). (k, JNone)) (props schema)" "[]"] by simp
  with obj_loop_all[of "map (\<lambda>(k, s). (k, opt s)) (props schema)" st d
      "map (\<lambda>(k, s). (k, JNone)) (props schema)" st "[]"] pp
  show "parse (partial schema) st (JObj d) =
          (Ok (JObj (map (\<lambda>(k, s). (k, JNone)) (props schema))), st)"
    by (simp add: parse_partial parseProps_opt)
next
  assume "props schema = before @ (key, s) # after \<and> parsePartial before st d = Some (ws, st1) \<and>
        \<not> isNil (getProp d key) \<and> parse s st1 (getProp d key) = (Err e, st2)"
  then have a: "props schema = before @ (key, s) # after"
    and b: "parsePartial before st d = Some (ws, st1)"
    and n: "\<not> isNil (getProp d key)"
    and c: "parse s st1 (getProp d key) = (Err e, st2)" by simp_all
  from b have b': "parseProps (map (\<lambda>(k, s). (k, opt s)) before) st d = Some (ws, st1)"
    by (simp add: parseProps_opt)
  from n c have c': "parse (opt s) st1 (getProp d key) = (Err e, st2)" by (simp add: parse_opt)
  from obj_loop_first[OF b' c', of "map (\<lambda>(k, s). (k, opt s)) after" "[]"] a
  show "parse (partial schema) st (JObj d) = (Err (e\<lparr> path := key # path e \<rparr>), st2)"
    by (simp add: parse_partial)
qed

theorem partial_accepts_absence_witness:
  "parse (partial (obj [(''name'', str None), (''age'', num None)] None)) emptyStore
      (JObj [(''name'', JStr ''John'')]) =
     (Ok (JObj [(''name'', JSome (JStr ''John'')), (''age'', JNone)]), emptyStore)
   \<and> parse (partial (obj [(''name'', str None), (''age'', num None)] None)) emptyStore (JObj []) =
     (Ok (JObj [(''name'', JNone), (''age'', JNone)]), emptyStore)
   \<and> parse (partial (obj [(''name'', str None), (''age'', num None)] None)) emptyStore
      (JObj [(''age'', JStr ''30'')]) =
     (Err \<lparr> actual = ''string'', expected = ''number'',
            message = ''Expected number, but got string'', path = [''age''],
            value = JStr ''30'' \<rparr>, emptyStore)"
proof -
  let ?s = "obj [(''name'', str None), (''age'', num None)] None"
  let ?d1 = "[(''name'', JStr ''John'')]"
  let ?d3 = "[(''age'', JStr ''30'')]"
  let ?e = "\<lparr> actual = ''string'', expected = ''number'',
            message = ''Expected number, but got string'', path = [],
            value = JStr ''30'' \<rparr>"
  have p: "props ?s = [(''name'', str None), (''age'', num None)]" by (simp add: obj_def)
  have a0: "parsePartial [(''name'', str None), (''age'', num None)] emptyStore ?d1 =
      Some ([(''name'', JSome (JStr ''John'')), (''age'', JNone)], emptyStore)"
    by (simp add: str_def inherited_def prototypeFunctions_def)
  have a: "parsePartial (props ?s) emptyStore ?d1 =
      Some ([(''name'', JSome (JStr ''John'')), (''age'', JNone)], emptyStore)"
    using a0 by (simp only: p)
  have b: "parsePartial [(''name'', str None)] emptyStore ?d3 = Some ([(''name'', JNone)], emptyStore)"
    by (simp add: inherited_def prototypeFunctions_def)
  have c: "parse (num None) emptyStore (getProp ?d3 ''age'') = (Err ?e, emptyStore)"
    by (simp add: num_def err_def Let_def)
  have n: "\<not> isNil (getProp ?d3 ''age'')" by simp
  have k: "\<forall>k \<in> fst ` set (props ?s). isNil (getProp [] k)"
    by (simp add: p inherited_def prototypeFunctions_def)
  have d: "distinct (map fst (props ?s))" by (simp add: p)
  have sp: "props ?s = [(''name'', str None)] @ (''age'', num None) # []" by (simp add: p)
  have 1: "parse (partial ?s) emptyStore (JObj ?d1) =
      (Ok (JObj [(''name'', JSome (JStr ''John'')), (''age'', JNone)]), emptyStore)"
    using partial_accepts_absence [of ?s emptyStore ?d1
            "[(''name'', JSome (JStr ''John'')), (''age'', JNone)]" emptyStore] a d
    by blast
  have 2: "parse (partial ?s) emptyStore (JObj []) =
      (Ok (JObj (map (\<lambda>(k, s). (k, JNone)) (props ?s))), emptyStore)"
    using partial_accepts_absence [of ?s emptyStore "[]"] k d
    by blast
  have 3: "parse (partial ?s) emptyStore (JObj ?d3) = (Err (?e\<lparr> path := ''age'' # path ?e \<rparr>), emptyStore)"
    using partial_accepts_absence [of ?s emptyStore ?d3 _ _ "[(''name'', str None)]" "''age''"
            "num None" "[]" "[(''name'', JNone)]" emptyStore ?e emptyStore] b c n sp
    by blast
  from 1 2 3 show ?thesis by (simp add: p)
qed


text \<open>
  The claim as the spec words it, that a present key whose value fails its property
  schema still fails, does not hold for a key that is present with the value \<open>null\<close>.
\<close>

theorem partial_null_counterexample:
  "\<not> isOk (fst (parse (str None) emptyStore JNull))
   \<and> parse (partial (obj [(''name'', str None)] None)) emptyStore (JObj [(''name'', JNull)]) =
       (Ok (JObj [(''name'', JNone)]), emptyStore)"
  by (simp add: partial_def obj_def str_def opt_def)

subsection \<open>Literals and the captured message\<close>

text \<open>
  C2. The result of \<open>parse\<close> is not a function of the input and the constructor's
  arguments alone. A \<open>lit("hello")\<close> built without a message fails on \<open>"foo"\<close> with the
  message that names \<open>"foo"\<close> when it is the first failure; after a failed parse of
  \<open>"world"\<close> the same call fails with the message that names \<open>"world"\<close>: the first
  failure assigned its message to the captured variable, and \<open>??=\<close> keeps it.
\<close>

theorem lit_message_kept:
  "(case lit B (PStr ''hello'') None emptyStore of
      (s, st0) \<Rightarrow>
        (case parse s st0 (JStr ''world'') of
           (r1, st1) \<Rightarrow>
             fst (parse s st0 (JStr ''foo'')) =
               Err \<lparr> actual = ''string'', expected = ''literal'',
                      message = ''Expected '' @ stringify B (JStr ''hello'') @ '', but got '' @
                                stringify B (JStr ''foo''),
                      path = [], value = JStr ''foo'' \<rparr>
             \<and> fst (parse s st1 (JStr ''foo'')) =
               Err \<lparr> actual = ''string'', expected = ''literal'',
                      message = ''Expected '' @ stringify B (JStr ''hello'') @ '', but got '' @
                                stringify B (JStr ''world''),
                      path = [], value = JStr ''foo'' \<rparr>))"
  by (simp add: lit_def Let_def emptyStore_def strictEquals_def assignIfNullish_def err_def)

lemma oneOf_message_kept:
  "(case oneOf B [''foo'', ''bar''] None emptyStore of
      (s, st0) \<Rightarrow>
        (case parse s st0 (JStr ''qux'') of
           (r1, st1) \<Rightarrow>
             message (case fst (parse s st1 (JStr ''zap'')) of Err e \<Rightarrow> e) =
               ''Expected one of '' @ stringify B (JArr [JStr ''foo'', JStr ''bar'']) @ '', but got '' @
                  stringify B (JStr ''qux'')))"
  by (simp add: oneOf_def Let_def emptyStore_def assignIfNullish_def err_def)


subsection \<open>Paths\<close>

lemma list_loop_Err:
  "list_loop s st i xs arr = (Err e, st') \<Longrightarrow>
   \<exists>j < length xs. \<exists>e0 st0 st0'. parse s st0 (xs ! j) = (Err e0, st0') \<and>
      e = e0\<lparr> path := toString (i + j) # path e0 \<rparr>"
proof (induction xs arbitrary: st i arr)
  case Nil
  then show ?case by simp
next
  case (Cons x xs)
  obtain r st1 where p: "parse s st x = (r, st1)" by (cases "parse s st x")
  show ?case
  proof (cases r)
    case (Err e0)
    with p Cons.prems have "e = e0\<lparr> path := toString (i + 0) # path e0 \<rparr>" by simp
    with p Err have "0 < length (x # xs) \<and> parse s st ((x # xs) ! 0) = (Err e0, st1) \<and>
        e = e0\<lparr> path := toString (i + 0) # path e0 \<rparr>" by simp
    then show ?thesis by blast
  next
    case (Ok v)
    with p Cons.prems have "list_loop s st1 (Suc i) xs (arr @ [v]) = (Err e, st')" by simp
    from Cons.IH[OF this] obtain j e0 st0 st0' where
      h: "j < length xs" "parse s st0 (xs ! j) = (Err e0, st0')"
         "e = e0\<lparr> path := toString (Suc i + j) # path e0 \<rparr>" by blast
    then have "Suc j < length (x # xs) \<and> parse s st0 ((x # xs) ! Suc j) = (Err e0, st0') \<and>
        e = e0\<lparr> path := toString (i + Suc j) # path e0 \<rparr>" by simp
    then show ?thesis by blast
  next
    case (Throw t)
    with p Cons.prems show ?thesis by simp
  qed
qed

lemma tuple_loop_Err:
  "tuple_loop ss st i xs arr = (Err e, st') \<Longrightarrow>
   \<exists>j. j < length xs \<and> j < length ss \<and>
     (\<exists>e0 st0 st0'. parse (ss ! j) st0 (xs ! j) = (Err e0, st0') \<and>
        e = e0\<lparr> path := toString (i + j) # path e0 \<rparr>)"
proof (induction ss st i xs arr rule: tuple_loop.induct)
  case (1 schema schemas st i x xs arr)
  obtain r st1 where p: "parse schema st x = (r, st1)" by (cases "parse schema st x")
  show ?case
  proof (cases r)
    case (Err e0)
    with p "1.prems" have "e = e0\<lparr> path := toString (i + 0) # path e0 \<rparr>" by simp
    with p Err have "0 < length (x # xs) \<and> 0 < length (schema # schemas) \<and>
        parse ((schema # schemas) ! 0) st ((x # xs) ! 0) = (Err e0, st1) \<and>
        e = e0\<lparr> path := toString (i + 0) # path e0 \<rparr>" by simp
    then show ?thesis by blast
  next
    case (Ok v)
    with p "1.prems" have "tuple_loop schemas st1 (Suc i) xs (arr @ [v]) = (Err e, st')" by simp
    from "1.IH"[OF p[symmetric] Ok this] obtain j e0 st0 st0' where
      h: "j < length xs" "j < length schemas" "parse (schemas ! j) st0 (xs ! j) = (Err e0, st0')"
         "e = e0\<lparr> path := toString (Suc i + j) # path e0 \<rparr>" by blast
    then have "Suc j < length (x # xs) \<and> Suc j < length (schema # schemas) \<and>
        parse ((schema # schemas) ! Suc j) st0 ((x # xs) ! Suc j) = (Err e0, st0') \<and>
        e = e0\<lparr> path := toString (i + Suc j) # path e0 \<rparr>" by simp
    then show ?thesis by blast
  next
    case (Throw t)
    with p "1.prems" show ?thesis by simp
  qed
qed simp_all

lemma trail_flat: "trail p x \<Longrightarrow> \<not> isArray x \<Longrightarrow> \<not> isPlainObject x \<Longrightarrow> p = []"
proof (cases p)
  case Nil
  then show ?thesis by simp
next
  case (Cons seg rest)
  assume "trail p x" "\<not> isArray x" "\<not> isPlainObject x"
  with Cons show ?thesis by (cases x) simp_all
qed

lemma list_ex_enumerate:
  "list_ex (\<lambda>(i, y). P i y) (enumerate n xs) \<longleftrightarrow> (\<exists>j < length xs. P (n + j) (xs ! j))"
proof (induction xs arbitrary: n)
  case Nil
  then show ?case by simp
next
  case (Cons x xs)
  have "(\<exists>j < length (x # xs). P (n + j) ((x # xs) ! j)) \<longleftrightarrow>
        P n x \<or> (\<exists>j < length xs. P (Suc n + j) (xs ! j))"
  proof
    assume "\<exists>j < length (x # xs). P (n + j) ((x # xs) ! j)"
    then obtain j where j: "j < length (x # xs)" "P (n + j) ((x # xs) ! j)" by blast
    show "P n x \<or> (\<exists>j < length xs. P (Suc n + j) (xs ! j))"
    proof (cases j)
      case 0
      with j show ?thesis by simp
    next
      case (Suc k)
      with j have "k < length xs \<and> P (Suc n + k) (xs ! k)" by simp
      then show ?thesis by blast
    qed
  next
    assume "P n x \<or> (\<exists>j < length xs. P (Suc n + j) (xs ! j))"
    then show "\<exists>j < length (x # xs). P (n + j) ((x # xs) ! j)"
    proof
      assume "P n x"
      then have "0 < length (x # xs) \<and> P (n + 0) ((x # xs) ! 0)" by simp
      then show ?thesis by blast
    next
      assume "\<exists>j < length xs. P (Suc n + j) (xs ! j)"
      then obtain k where "k < length xs" "P (Suc n + k) (xs ! k)" by blast
      then have "Suc k < length (x # xs) \<and> P (n + Suc k) ((x # xs) ! Suc k)" by simp
      then show ?thesis by blast
    qed
  qed
  with Cons show ?case by simp
qed

lemma trail_arr:
  "trail (seg # rest) (JArr xs) \<longleftrightarrow> (\<exists>j < length xs. seg = toString j \<and> trail rest (xs ! j))"
  using list_ex_enumerate[of "\<lambda>i y. seg = toString i \<and> trail rest y" 0 xs] by simp

lemma obj_loop_Err:
  "obj_loop ps st d acc = (Err e, st') \<Longrightarrow>
   \<exists>(k, s) \<in> set ps. \<exists>e0 st0 st0'. parse s st0 (getProp d k) = (Err e0, st0') \<and>
      e = e0\<lparr> path := k # path e0 \<rparr>"
proof (induction ps arbitrary: st acc)
  case Nil
  then show ?case by simp
next
  case (Cons p ps)
  obtain k s where pk: "p = (k, s)" by (cases p)
  obtain r st1 where q: "parse s st (getProp d k) = (r, st1)" by (cases "parse s st (getProp d k)")
  show ?case
  proof (cases r)
    case (Err e0)
    with q pk Cons.prems have "e = e0\<lparr> path := k # path e0 \<rparr>" by simp
    with q Err pk show ?thesis by auto
  next
    case (Ok v)
    with q pk Cons.prems have "obj_loop ps st1 d (setProp acc k v) = (Err e, st')" by simp
    from Cons.IH[OF this] show ?thesis by auto
  next
    case (Throw t)
    with q pk Cons.prems show ?thesis by simp
  qed
qed

lemma record_loop_Err:
  "record_loop B key val ks st d acc = (Err e, st') \<Longrightarrow>
   \<exists>k \<in> set ks. \<exists>e0 st0 st0'.
      (parse key st0 (JStr k) = (Err e0, st0') \<or> parse val st0 (getProp d k) = (Err e0, st0')) \<and>
      e = e0\<lparr> path := k # path e0 \<rparr>"
proof (induction ks arbitrary: st acc)
  case Nil
  then show ?case by simp
next
  case (Cons k ks)
  obtain r st1 where q: "parse key st (JStr k) = (r, st1)" by (cases "parse key st (JStr k)")
  show ?case
  proof (cases r)
    case (Err e0)
    with q Cons.prems have "e = e0\<lparr> path := k # path e0 \<rparr>" by simp
    with q Err show ?thesis by auto
  next
    case (Ok kv)
    obtain r2 st2 where q2: "parse val st1 (getProp d k) = (r2, st2)"
      by (cases "parse val st1 (getProp d k)")
    show ?thesis
    proof (cases r2)
      case (Err e0)
      with q Ok q2 Cons.prems have "e = e0\<lparr> path := k # path e0 \<rparr>" by simp
      with q2 Err show ?thesis by auto
    next
      case Ok2: (Ok v)
      with q Ok q2 Cons.prems obtain name where
        "record_loop B key val ks st2 d (setProp acc name v) = (Err e, st')"
        by (cases "propertyKey B kv") simp_all
      from Cons.IH[OF this] show ?thesis by auto
    next
      case Throw2: (Throw t)
      with q Ok q2 Cons.prems show ?thesis by simp
    qed
  next
    case (Throw t)
    with q Cons.prems show ?thesis by simp
  qed
qed

lemma union_loop_Err: "union_loop ss r st x = (Err e, st') \<Longrightarrow> r = Err e"
  by (induction ss arbitrary: st) (auto split: prod.splits Result.splits)

lemma pipe_loop_Err: "pipe_loop ps v = Err e \<Longrightarrow> path e = []"
proof (induction ps arbitrary: v)
  case Nil
  then show ?case by simp
next
  case (Cons p ps)
  show ?case
  proof (cases "p v")
    case (Ok w)
    with Cons show ?thesis by simp
  next
    case (Err m)
    with Cons.prems show ?thesis by (auto simp: err_simps)
  next
    case (Throw t)
    with Cons.prems show ?thesis by simp
  qed
qed

lemma parse_truncate: "parse (Schema.truncate ob) = parse ob" "type (Schema.truncate ob) = type ob"
  by (simp_all add: Schema.truncate_def)

lemma parse_record:
  "parse (record_schema B key val msg) st x =
     (if \<not> isPlainObject x then (Err (err ''record'' x msg), st)
      else record_loop B key val (map fst (properties x)) st (properties x) [])"
  by (simp add: record_schema_def)

lemma parse_tuple:
  "parse (tuple ss msg) st x =
     (if \<not> isArray x \<or> length (elements x) \<noteq> length ss then (Err (err ''tuple'' x msg), st)
      else tuple_loop ss st 0 (elements x) [])"
  by (simp add: tuple_def)

lemma parse_def:
  "parse (def s dv msg) st x = (if isNil x then (Ok dv, st) else parse s st x)"
  by (simp add: def_def)

lemma parse_map:
  "parse (map_schema s mapper) st x =
     (case parse s st x of
        (r, st') \<Rightarrow> (andThen (\<lambda>v. mapErr (\<lambda>m. err (type s) v (Some m)) (mapper v)) r, st'))"
  by (simp add: map_schema_def)

lemma tags:
  "type any = ''unknown''" "type (str m) = ''string''" "type (num m) = ''number''"
  "type (bool m) = ''boolean''" "type (date m) = ''date''" "type (list s m) = ''list''"
  "type (obj ps m) = ''object''" "type (record_schema B k v m) = ''record''"
  "type (union_schema ss m) = ''union''" "type (tuple ss m) = ''tuple''"
  "type (enum_schema en m) = ''enum''" "type (fst (oneOf B vals m st)) = ''oneOf''"
  "type (fst (lit B lv m st)) = ''literal''" "type (opt s) = ''optional''"
  "type (def s dv m) = ''default''" "type (pipe s pipeline) = ''pipe''"
  "type (map_schema s mapper) = type s"
  by (simp_all add: any_def str_def num_def bool_def date_def list_def obj_def record_schema_def
      union_schema_def tuple_def enum_schema_def oneOf_def lit_def opt_def def_def pipe_def
      map_schema_def Let_def)

lemma flat_origins:
  "flatErrors any" "flatErrors (str m)" "flatErrors (num m)" "flatErrors (bool m)"
  "flatErrors (date m)" "flatErrors (enum_schema en m)" "flatErrors (fst (oneOf B vals m st))"
  "flatErrors (fst (lit B lv m st))" "flatErrors (union_schema ss m)"
proof -
  show "flatErrors any" by (simp add: flatErrors_def any_def)
  show "flatErrors (str m)" by (auto simp: flatErrors_def str_def err_simps split: if_splits)
  show "flatErrors (num m)" by (auto simp: flatErrors_def num_def err_simps split: if_splits)
  show "flatErrors (bool m)" by (auto simp: flatErrors_def bool_def err_simps split: if_splits)
  show "flatErrors (date m)" by (auto simp: flatErrors_def date_def err_simps split: if_splits)
  show "flatErrors (enum_schema en m)"
    by (auto simp: flatErrors_def enum_schema_def Let_def err_simps split: if_splits)
  show "flatErrors (fst (oneOf B vals m st))"
    by (auto simp: flatErrors_def oneOf_def Let_def err_simps split: if_splits)
  show "flatErrors (fst (lit B lv m st))"
    by (auto simp: flatErrors_def lit_def Let_def err_simps split: if_splits)
  show "flatErrors (union_schema ss m)"
    unfolding flatErrors_def parse_union
  proof (intro allI impI)
    fix st x e st'
    assume "union_loop ss (Err (err (join '' | '' (map type ss)) x m)) st x = (Err e, st')"
    from union_loop_Err[OF this] show "path e = []" by (auto simp: err_simps)
  qed
qed

lemma flat_rootToLeaf: "flatErrors s \<Longrightarrow> rootToLeaf s"
  by (auto simp: flatErrors_def rootToLeaf_def)

lemma rootToLeaf_list: assumes "rootToLeaf s" shows "rootToLeaf (list s m)"
  unfolding rootToLeaf_def
proof (intro allI impI)
  fix st x e st'
  assume p: "parse (list s m) st x = (Err e, st')"
  show "trail (path e) x"
  proof (cases x)
    case (JArr xs)
    with p have "list_loop s st 0 xs [] = (Err e, st')" by (simp add: parse_list)
    from list_loop_Err[OF this] obtain j e0 st0 st0' where
      h: "j < length xs" "parse s st0 (xs ! j) = (Err e0, st0')"
         "e = e0\<lparr> path := toString (0 + j) # path e0 \<rparr>" by blast
    from assms h(2) have "trail (path e0) (xs ! j)" by (auto simp: rootToLeaf_def)
    with h(1) have "trail (toString j # path e0) (JArr xs)" unfolding trail_arr by blast
    with h(3) JArr show ?thesis by (simp del: trail.simps)
  qed (use p in \<open>auto simp: parse_list err_simps\<close>)
qed

lemma rootToLeaf_tuple: assumes "\<forall>s \<in> set ss. rootToLeaf s" shows "rootToLeaf (tuple ss m)"
  unfolding rootToLeaf_def
proof (intro allI impI)
  fix st x e st'
  assume p: "parse (tuple ss m) st x = (Err e, st')"
  show "trail (path e) x"
  proof (cases "\<not> isArray x \<or> length (elements x) \<noteq> length ss")
    case True
    with p show ?thesis by (auto simp: parse_tuple err_simps)
  next
    case False
    then obtain xs where x: "x = JArr xs" by (cases x) auto
    with p False have "tuple_loop ss st 0 xs [] = (Err e, st')" by (simp add: parse_tuple)
    from tuple_loop_Err[OF this] obtain j e0 st0 st0' where
      h: "j < length xs" "j < length ss" "parse (ss ! j) st0 (xs ! j) = (Err e0, st0')"
         "e = e0\<lparr> path := toString (0 + j) # path e0 \<rparr>" by blast
    from assms h(2) have "rootToLeaf (ss ! j)" by simp
    with h(3) have "trail (path e0) (xs ! j)" by (auto simp: rootToLeaf_def)
    with h(1) have "trail (toString j # path e0) (JArr xs)" unfolding trail_arr by blast
    with h(4) x show ?thesis by (simp del: trail.simps)
  qed
qed

lemma rootToLeaf_obj: assumes "\<forall>s \<in> snd ` set ps. rootToLeaf s" shows "rootToLeaf (obj ps m)"
  unfolding rootToLeaf_def
proof (intro allI impI)
  fix st x e st'
  assume p: "parse (obj ps m) st x = (Err e, st')"
  show "trail (path e) x"
  proof (cases x)
    case (JObj d)
    with p have "obj_loop ps st d [] = (Err e, st')" by (simp add: parse_obj)
    from obj_loop_Err[OF this] obtain k s e0 st0 st0' where
      h: "(k, s) \<in> set ps" "parse s st0 (getProp d k) = (Err e0, st0')"
         "e = e0\<lparr> path := k # path e0 \<rparr>" by blast
    from assms h(1) have "rootToLeaf s" by force
    with h(2) have "trail (path e0) (getProp d k)" by (auto simp: rootToLeaf_def)
    with h(3) JObj show ?thesis by simp
  qed (use p in \<open>auto simp: parse_obj err_simps\<close>)
qed

lemma rootToLeaf_record:
  assumes "rootToLeaf key" "rootToLeaf val" shows "rootToLeaf (record_schema B key val m)"
  unfolding rootToLeaf_def
proof (intro allI impI)
  fix st x e st'
  assume p: "parse (record_schema B key val m) st x = (Err e, st')"
  show "trail (path e) x"
  proof (cases x)
    case (JObj d)
    with p have "record_loop B key val (map fst d) st d [] = (Err e, st')" by (simp add: parse_record)
    from record_loop_Err[OF this] obtain k e0 st0 st0' where
      h: "parse key st0 (JStr k) = (Err e0, st0') \<or> parse val st0 (getProp d k) = (Err e0, st0')"
         "e = e0\<lparr> path := k # path e0 \<rparr>" by blast
    from h(1) have "trail (path e0) (getProp d k)"
    proof
      assume "parse key st0 (JStr k) = (Err e0, st0')"
      with assms(1) have "trail (path e0) (JStr k)" by (auto simp: rootToLeaf_def)
      then have "path e0 = []" by (rule trail_flat) simp_all
      then show ?thesis by simp
    next
      assume "parse val st0 (getProp d k) = (Err e0, st0')"
      with assms(2) show ?thesis by (auto simp: rootToLeaf_def)
    qed
    with h(2) JObj show ?thesis by simp
  qed (use p in \<open>auto simp: parse_record err_simps\<close>)
qed

lemma rootToLeaf_opt: assumes "rootToLeaf s" shows "rootToLeaf (opt s)"
  unfolding rootToLeaf_def
proof (intro allI impI)
  fix st x e st'
  assume p: "parse (opt s) st x = (Err e, st')"
  then have n: "\<not> isNil x" by (auto simp: parse_opt split: if_splits)
  obtain r st1 where q: "parse s st x = (r, st1)" by (cases "parse s st x")
  with p n have "r = Err e" by (cases r) (auto simp: parse_opt)
  with q assms show "trail (path e) x" by (auto simp: rootToLeaf_def)
qed

lemma rootToLeaf_default: assumes "rootToLeaf s" shows "rootToLeaf (def s dv m)"
  using assms by (auto simp: rootToLeaf_def parse_def split: if_splits)

lemma rootToLeaf_pipe: assumes "rootToLeaf s" shows "rootToLeaf (pipe s pipeline)"
  unfolding rootToLeaf_def
proof (intro allI impI)
  fix st x e st'
  assume p: "parse (pipe s pipeline) st x = (Err e, st')"
  obtain r st1 where q: "parse s st x = (r, st1)" by (cases "parse s st x")
  show "trail (path e) x"
  proof (cases r)
    case (Err e0)
    with p q have "e0 = e" by (simp add: parse_pipe)
    with q Err assms show ?thesis by (auto simp: rootToLeaf_def)
  next
    case (Ok v)
    with p q have "pipe_loop pipeline v = Err e" by (simp add: parse_pipe)
    then have "path e = []" by (rule pipe_loop_Err)
    then show ?thesis by simp
  next
    case (Throw t)
    with p q show ?thesis by (simp add: parse_pipe)
  qed
qed

lemma map_errors:
  assumes "parse (map_schema s mapper) st x = (Err e, st')"
  shows "parse s st x = (Err e, st') \<or> path e = []"
proof -
  obtain r st1 where q: "parse s st x = (r, st1)" by (cases "parse s st x")
  show ?thesis
  proof (cases r)
    case (Err e0)
    with assms q show ?thesis by (simp add: parse_map)
  next
    case (Ok v)
    with assms q have "mapErr (\<lambda>m. err (type s) v (Some m)) (mapper v) = Err e"
      by (simp add: parse_map)
    then have "path e = []" by (cases "mapper v") (auto simp: err_simps)
    then show ?thesis by simp
  next
    case (Throw t)
    with assms q show ?thesis by (simp add: parse_map)
  qed
qed

lemma rootToLeaf_map: assumes "rootToLeaf s" shows "rootToLeaf (map_schema s mapper)"
  unfolding rootToLeaf_def
proof (intro allI impI)
  fix st x e st'
  assume "parse (map_schema s mapper) st x = (Err e, st')"
  from map_errors[OF this] assms show "trail (path e) x" by (auto simp: rootToLeaf_def)
qed

lemma flatErrors_map: assumes "flatErrors s" shows "flatErrors (map_schema s mapper)"
  unfolding flatErrors_def
proof (intro allI impI)
  fix st x e st'
  assume "parse (map_schema s mapper) st x = (Err e, st')"
  from map_errors[OF this] assms show "path e = []" by (auto simp: flatErrors_def)
qed

lemma flatErrors_pre: assumes "flatErrors s" shows "flatErrors (pre s hook)"
  using assms by (auto simp: flatErrors_def parse_pre split: sum.splits prod.splits)

lemma as_Inr:
  assumes "as B s = Inr s'"
  shows "type s \<in> primitiveTags \<and> (\<exists>hook. s' = pre s hook)"
  using assms by (auto simp: as_def primitiveTags_def split: if_splits)

lemma setProp_values: "snd ` set (setProp ps k v) \<subseteq> insert v (snd ` set ps)"
proof (induction ps)
  case Nil
  then show ?case by simp
next
  case (Cons p ps)
  obtain a b where p: "p = (a, b)" by (cases p)
  show ?case
  proof (cases "a = k")
    case True
    with p show ?thesis by auto
  next
    case False
    with p Cons show ?thesis by auto
  qed
qed

lemma assign_step_values:
  "snd ` set (foldl (\<lambda>acc' (k, v). setProp acc' k v) acc src) \<subseteq> snd ` set acc \<union> snd ` set src"
proof (induction src arbitrary: acc)
  case Nil
  then show ?case by simp
next
  case (Cons p src)
  obtain k v where pk: "p = (k, v)" by (cases p)
  from Cons[of "setProp acc k v"] setProp_values[of acc k v] pk show ?case by auto
qed

lemma assign_values_gen:
  "snd ` set (foldl (\<lambda>acc src. foldl (\<lambda>acc' (k, v). setProp acc' k v) acc src) acc sources)
     \<subseteq> snd ` set acc \<union> (\<Union>src \<in> set sources. snd ` set src)"
proof (induction sources arbitrary: acc)
  case Nil
  then show ?case by simp
next
  case (Cons src sources)
  from Cons[of "foldl (\<lambda>acc' (k, v). setProp acc' k v) acc src"] assign_step_values[of acc src]
  show ?case by auto
qed

lemma set_forIn: "set (forIn ps) = set ps"
  by (auto simp: forIn_def)

lemma assign_values: "snd ` set (assign sources) \<subseteq> (\<Union>src \<in> set sources. snd ` set src)"
  using assign_values_gen[of "[]" sources] by (simp add: assign_def set_forIn)

lemma props_obj: "props (obj ps m) = ps"
  by (simp add: obj_def)

lemma not_primitive:
  "''unknown'' \<notin> primitiveTags" "''list'' \<notin> primitiveTags" "''object'' \<notin> primitiveTags"
  "''record'' \<notin> primitiveTags" "''union'' \<notin> primitiveTags" "''tuple'' \<notin> primitiveTags"
  "''enum'' \<notin> primitiveTags" "''oneOf'' \<notin> primitiveTags" "''literal'' \<notin> primitiveTags"
  "''optional'' \<notin> primitiveTags" "''default'' \<notin> primitiveTags" "''pipe'' \<notin> primitiveTags"
  by (simp_all add: primitiveTags_def)

lemma rootToLeaf_truncate: "rootToLeaf (Schema.truncate ob) = rootToLeaf ob"
  by (simp add: rootToLeaf_def parse_truncate)

lemma constructed_paths:
  shows "constructed s \<Longrightarrow> rootToLeaf s \<and> (type s \<in> primitiveTags \<longrightarrow> flatErrors s)"
    and "constructedObj ob \<Longrightarrow>
           (\<exists>m. ob = obj (props ob) m) \<and> (\<forall>s \<in> snd ` set (props ob). rootToLeaf s)"
proof (induction rule: constructed_constructedObj.inducts)
  case c_any
  show ?case by (simp add: flat_origins flat_rootToLeaf)
next
  case (c_str m)
  show ?case by (simp add: flat_origins flat_rootToLeaf)
next
  case (c_num m)
  show ?case by (simp add: flat_origins flat_rootToLeaf)
next
  case (c_bool m)
  show ?case by (simp add: flat_origins flat_rootToLeaf)
next
  case (c_date m)
  show ?case by (simp add: flat_origins flat_rootToLeaf)
next
  case (c_list s m)
  then show ?case by (simp add: rootToLeaf_list tags not_primitive)
next
  case (c_obj ob)
  then obtain m where ob: "ob = obj (props ob) m" by blast
  from c_obj have "rootToLeaf (obj (props ob) m)" by (simp add: rootToLeaf_obj)
  with ob have "rootToLeaf ob" by simp
  moreover from ob have "type ob = ''object''" by (metis tags(7))
  ultimately show ?case by (simp add: rootToLeaf_truncate parse_truncate not_primitive)
next
  case (c_record k v B m)
  then show ?case by (simp add: rootToLeaf_record tags not_primitive)
next
  case (c_union ss m)
  show ?case by (simp add: flat_origins flat_rootToLeaf)
next
  case (c_tuple ss m)
  then show ?case by (simp add: rootToLeaf_tuple tags not_primitive)
next
  case (c_enum en m)
  show ?case by (simp add: flat_origins flat_rootToLeaf)
next
  case (c_oneOf B vals m st)
  show ?case by (simp add: flat_origins flat_rootToLeaf)
next
  case (c_lit B lv m st)
  show ?case by (simp add: flat_origins flat_rootToLeaf)
next
  case (c_opt s)
  then show ?case by (simp add: rootToLeaf_opt tags not_primitive)
next
  case (c_def s dv m)
  then show ?case by (simp add: rootToLeaf_default tags not_primitive)
next
  case (c_pipe s pipeline)
  then show ?case by (simp add: rootToLeaf_pipe tags not_primitive)
next
  case (c_map s mapper)
  then show ?case by (simp add: rootToLeaf_map flatErrors_map tags)
next
  case (c_as s B s')
  from as_Inr[OF c_as(2)] obtain hook where t: "type s \<in> primitiveTags" and s': "s' = pre s hook"
    by blast
  from c_as(3) t have "flatErrors s" by simp
  then have "flatErrors s'" unfolding s' by (rule flatErrors_pre)
  then show ?case by (simp add: flat_rootToLeaf)
next
  case (o_obj ps m)
  then show ?case by (auto simp: props_obj)
next
  case (o_extend obs m)
  have "\<forall>s \<in> snd ` set (assign (map props obs)). rootToLeaf s"
  proof
    fix s assume "s \<in> snd ` set (assign (map props obs))"
    with assign_values[of "map props obs"]
    have "s \<in> (\<Union>src \<in> set (map props obs). snd ` set src)" by blast
    then obtain ob where "ob \<in> set obs" "s \<in> snd ` set (props ob)" by auto
    with o_extend show "rootToLeaf s" by blast
  qed
  then show ?case by (auto simp: extend_def props_obj)
next
  case (o_select ob keys m)
  then have "\<forall>s \<in> snd ` set (pick (props ob) keys). rootToLeaf s" by (auto simp: pick_def)
  then show ?case by (auto simp: select_def props_obj)
next
  case (o_exclude ob keys m)
  then have "\<forall>s \<in> snd ` set (omit (props ob) keys). rootToLeaf s" by (auto simp: omit_def)
  then show ?case by (auto simp: exclude_def props_obj)
next
  case (o_partial ob)
  then have "\<forall>s \<in> snd ` set (map (\<lambda>(k, s). (k, opt s)) (props ob)). rootToLeaf s"
    by (auto simp: rootToLeaf_opt)
  then show ?case by (auto simp: partial_def props_obj)
qed

lemma pipe_step_flat:
  assumes "parse s st x = (Ok w, st1)" "parse (pipe s pipeline) st x = (Err e, st')"
  shows "path e = []"
proof -
  from assms(2) have "pipe_loop pipeline w = Err e" unfolding parse_pipe assms(1) by simp
  then show ?thesis by (rule pipe_loop_Err)
qed

lemma map_step_flat:
  assumes "parse s st x = (Ok w, st1)" "parse (map_schema s mapper) st x = (Err e, st')"
  shows "path e = []"
proof -
  from map_errors[OF assms(2)] show ?thesis
  proof
    assume "parse s st x = (Err e, st')"
    with assms(1) show ?thesis by simp
  qed
qed

lemma list_prepends:
  assumes p: "parse (list s m) st x = (Err e, st')"
  shows "(\<not> isArray x \<and> e = err ''list'' x m) \<or>
        (\<exists>j < length (elements x). \<exists>e0 sa sb. parse s sa (elements x ! j) = (Err e0, sb) \<and>
            e = e0\<lparr> path := toString j # path e0 \<rparr>)"
proof (cases "isArray x")
  case False
  with p show ?thesis by (simp add: parse_list)
next
  case True
  with p have "list_loop s st 0 (elements x) [] = (Err e, st')" by (simp add: parse_list)
  from list_loop_Err[OF this] have
    "\<exists>j < length (elements x). \<exists>e0 sa sb. parse s sa (elements x ! j) = (Err e0, sb) \<and>
            e = e0\<lparr> path := toString j # path e0 \<rparr>" by simp
  then show ?thesis ..
qed

lemma tuple_prepends:
  assumes p: "parse (tuple ss m) st x = (Err e, st')"
  shows "((\<not> isArray x \<or> length (elements x) \<noteq> length ss) \<and> e = err ''tuple'' x m) \<or>
        (\<exists>j < length ss. \<exists>e0 sa sb. parse (ss ! j) sa (elements x ! j) = (Err e0, sb) \<and>
            e = e0\<lparr> path := toString j # path e0 \<rparr>)"
proof (cases "\<not> isArray x \<or> length (elements x) \<noteq> length ss")
  case True
  with p have "e = err ''tuple'' x m" by (simp add: parse_tuple)
  with True show ?thesis by blast
next
  case False
  with p have "tuple_loop ss st 0 (elements x) [] = (Err e, st')" by (simp add: parse_tuple)
  from tuple_loop_Err[OF this] obtain j e0 sa sb where
    "j < length ss" "parse (ss ! j) sa (elements x ! j) = (Err e0, sb)"
    "e = e0\<lparr> path := toString (0 + j) # path e0 \<rparr>" by blast
  then have "j < length ss \<and> parse (ss ! j) sa (elements x ! j) = (Err e0, sb) \<and>
    e = e0\<lparr> path := toString j # path e0 \<rparr>" by simp
  then show ?thesis by blast
qed

lemma obj_prepends:
  assumes p: "parse (obj ps m) st x = (Err e, st')"
  shows "(\<not> isPlainObject x \<and> e = err ''object'' x m) \<or>
        (\<exists>(k, c) \<in> set ps. \<exists>e0 sa sb. parse c sa (getProp (properties x) k) = (Err e0, sb) \<and>
            e = e0\<lparr> path := k # path e0 \<rparr>)"
proof (cases "isPlainObject x")
  case False
  with p show ?thesis by (simp add: parse_obj)
next
  case True
  with p have "obj_loop ps st (properties x) [] = (Err e, st')" by (simp add: parse_obj)
  from obj_loop_Err[OF this] show ?thesis ..
qed

lemma record_prepends:
  assumes p: "parse (record_schema B key val m) st x = (Err e, st')"
  shows "(\<not> isPlainObject x \<and> e = err ''record'' x m) \<or>
        (\<exists>k \<in> fst ` set (properties x). \<exists>e0 sa sb.
            (parse key sa (JStr k) = (Err e0, sb) \<or>
             parse val sa (getProp (properties x) k) = (Err e0, sb)) \<and>
            e = e0\<lparr> path := k # path e0 \<rparr>)"
proof (cases "isPlainObject x")
  case False
  with p show ?thesis by (simp add: parse_record)
next
  case True
  with p have "record_loop B key val (map fst (properties x)) st (properties x) [] = (Err e, st')"
    by (simp add: parse_record)
  from record_loop_Err[OF this] have
    "\<exists>k \<in> fst ` set (properties x). \<exists>e0 sa sb.
            (parse key sa (JStr k) = (Err e0, sb) \<or>
             parse val sa (getProp (properties x) k) = (Err e0, sb)) \<and>
            e = e0\<lparr> path := k # path e0 \<rparr>" by simp
  then show ?thesis ..
qed

lemma constructed_trail:
  assumes "constructed c" "parse c st x = (Err e, st')"
  shows "trail (path e) x"
proof -
  from constructed_paths(1)[OF assms(1)] have "rootToLeaf c" by simp
  with assms(2) show ?thesis unfolding rootToLeaf_def by blast
qed

text \<open>
  C1. Every error is made by \<open>err\<close>, with the empty path: the errors of the primitive
  schemas, of \<open>enum\<close>, \<open>oneOf\<close> and \<open>lit\<close>, of a union and of a failing step of \<open>pipe\<close> or
  \<open>map\<close> have the empty path. An error of \<open>list\<close>, \<open>tuple\<close>, \<open>obj\<close> or \<open>record\<close> is
  either the schema's own error for an input of the wrong kind, or an error \<open>e0\<close> of a
  child with one segment put before its path and every other field as in \<open>e0\<close>: the
  index as a string for \<open>list\<close> and \<open>tuple\<close>, the property key for \<open>obj\<close> and \<open>record\<close>.
  So for every schema built from the public constructors the path of a delivered error
  reads from the root of the input to the failing value.
\<close>

theorem path_accumulation:
  "(constructed c \<and> parse c st x = (Err e, st') \<longrightarrow> trail (path e) x)
   \<and> path (err t v msg) = []
   \<and> flatErrors (str m) \<and> flatErrors (num m) \<and> flatErrors (bool m) \<and> flatErrors (date m)
   \<and> flatErrors (enum_schema en m) \<and> flatErrors (fst (oneOf B vals m st0))
   \<and> flatErrors (fst (lit B lv m st0)) \<and> flatErrors (union_schema ss m)
   \<and> (parse s st x = (Ok w, st1) \<and> parse (pipe s pipeline) st x = (Err e, st') \<longrightarrow> path e = [])
   \<and> (parse s st x = (Ok w, st1) \<and> parse (map_schema s mapper) st x = (Err e, st') \<longrightarrow> path e = [])
   \<and> (parse (list s m) st x = (Err e, st') \<longrightarrow>
        (\<not> isArray x \<and> e = err ''list'' x m) \<or>
        (\<exists>j < length (elements x). \<exists>e0 sa sb. parse s sa (elements x ! j) = (Err e0, sb) \<and>
            e = e0\<lparr> path := toString j # path e0 \<rparr>))
   \<and> (parse (tuple ss m) st x = (Err e, st') \<longrightarrow>
        ((\<not> isArray x \<or> length (elements x) \<noteq> length ss) \<and> e = err ''tuple'' x m) \<or>
        (\<exists>j < length ss. \<exists>e0 sa sb. parse (ss ! j) sa (elements x ! j) = (Err e0, sb) \<and>
            e = e0\<lparr> path := toString j # path e0 \<rparr>))
   \<and> (parse (obj ps m) st x = (Err e, st') \<longrightarrow>
        (\<not> isPlainObject x \<and> e = err ''object'' x m) \<or>
        (\<exists>(k, c) \<in> set ps. \<exists>e0 sa sb. parse c sa (getProp (properties x) k) = (Err e0, sb) \<and>
            e = e0\<lparr> path := k # path e0 \<rparr>))
   \<and> (parse (record_schema B key val m) st x = (Err e, st') \<longrightarrow>
        (\<not> isPlainObject x \<and> e = err ''record'' x m) \<or>
        (\<exists>k \<in> fst ` set (properties x). \<exists>e0 sa sb.
            (parse key sa (JStr k) = (Err e0, sb) \<or>
             parse val sa (getProp (properties x) k) = (Err e0, sb)) \<and>
            e = e0\<lparr> path := k # path e0 \<rparr>))"
proof (intro conjI)
  show "constructed c \<and> parse c st x = (Err e, st') \<longrightarrow> trail (path e) x"
    using constructed_trail by blast
  show "path (err t v msg) = []" by (simp add: err_simps)
  show "flatErrors (str m)" "flatErrors (num m)" "flatErrors (bool m)" "flatErrors (date m)"
    "flatErrors (enum_schema en m)" "flatErrors (fst (oneOf B vals m st0))"
    "flatErrors (fst (lit B lv m st0))" "flatErrors (union_schema ss m)"
    by (rule flat_origins)+
  show "parse s st x = (Ok w, st1) \<and> parse (pipe s pipeline) st x = (Err e, st') \<longrightarrow> path e = []"
    using pipe_step_flat by blast
  show "parse s st x = (Ok w, st1) \<and> parse (map_schema s mapper) st x = (Err e, st') \<longrightarrow> path e = []"
    using map_step_flat by blast
  show "parse (list s m) st x = (Err e, st') \<longrightarrow>
        (\<not> isArray x \<and> e = err ''list'' x m) \<or>
        (\<exists>j < length (elements x). \<exists>e0 sa sb. parse s sa (elements x ! j) = (Err e0, sb) \<and>
            e = e0\<lparr> path := toString j # path e0 \<rparr>)"
    by (rule impI) (rule list_prepends)
  show "parse (tuple ss m) st x = (Err e, st') \<longrightarrow>
        ((\<not> isArray x \<or> length (elements x) \<noteq> length ss) \<and> e = err ''tuple'' x m) \<or>
        (\<exists>j < length ss. \<exists>e0 sa sb. parse (ss ! j) sa (elements x ! j) = (Err e0, sb) \<and>
            e = e0\<lparr> path := toString j # path e0 \<rparr>)"
    by (rule impI) (rule tuple_prepends)
  show "parse (obj ps m) st x = (Err e, st') \<longrightarrow>
        (\<not> isPlainObject x \<and> e = err ''object'' x m) \<or>
        (\<exists>(k, c) \<in> set ps. \<exists>e0 sa sb. parse c sa (getProp (properties x) k) = (Err e0, sb) \<and>
            e = e0\<lparr> path := k # path e0 \<rparr>)"
    by (rule impI) (rule obj_prepends)
  show "parse (record_schema B key val m) st x = (Err e, st') \<longrightarrow>
        (\<not> isPlainObject x \<and> e = err ''record'' x m) \<or>
        (\<exists>k \<in> fst ` set (properties x). \<exists>e0 sa sb.
            (parse key sa (JStr k) = (Err e0, sb) \<or>
             parse val sa (getProp (properties x) k) = (Err e0, sb)) \<and>
            e = e0\<lparr> path := k # path e0 \<rparr>)"
    by (rule impI) (rule record_prepends)
qed

theorem path_accumulation_witness:
  "parse (list (Schema.truncate (obj [(''name'', str None)] None)) None) emptyStore
     (JArr [JObj [(''name'', JStr ''a'')], JObj [(''name'', JNum (Finite 1))]]) =
     (Err \<lparr> actual = ''number'', expected = ''string'',
            message = ''Expected string, but got number'', path = [''1'', ''name''],
            value = JNum (Finite 1) \<rparr>, emptyStore)
   \<and> trail [''1'', ''name'']
        (JArr [JObj [(''name'', JStr ''a'')], JObj [(''name'', JNum (Finite 1))]])"
proof -
  let ?c = "list (Schema.truncate (obj [(''name'', str None)] None)) None"
  let ?x = "JArr [JObj [(''name'', JStr ''a'')], JObj [(''name'', JNum (Finite 1))]]"
  let ?e = "\<lparr> actual = ''number'', expected = ''string'',
            message = ''Expected string, but got number'', path = [''1'', ''name''],
            value = JNum (Finite 1) \<rparr>"
  have p: "parse ?c emptyStore ?x = (Err ?e, emptyStore)"
    by (simp add: list_def obj_def str_def Schema.truncate_def err_def Let_def toString_1)
  have "\<forall>s \<in> snd ` set [(''name'', str None)]. constructed s" by (simp add: c_str)
  then have "constructedObj (obj [(''name'', str None)] None)" by (rule o_obj)
  then have "constructed (Schema.truncate (obj [(''name'', str None)] None))" by (rule c_obj)
  then have c: "constructed ?c" by (rule c_list)
  have "constructed ?c \<and> parse ?c emptyStore ?x = (Err ?e, emptyStore) \<longrightarrow> trail (path ?e) ?x"
    by (rule path_accumulation [where st = emptyStore and x = ?x and e = ?e and st' = emptyStore
        and c = ?c, THEN conjunct1])
  with c p have "trail (path ?e) ?x" by (simp only: simp_thms)
  then have "trail [''1'', ''name''] ?x" by (simp del: trail.simps)
  with p show ?thesis by (simp only: simp_thms)
qed

end
